theory Spec2Isabelle
  imports Complex_Main "HOL-Library.AList"
begin

section \<open>Python values used by the notebook\<close>

subsection \<open>Strings\<close>

text \<open>
  A Python \<open>str\<close> is a sequence of Unicode code points, so a string is a list of
  code points (natural numbers) and \<open>length\<close> counts what Python's \<open>len\<close> counts.
  \<open>str\<close> turns an ASCII literal into such a string.
\<close>

type_synonym pystr = "nat list"

definition str :: "string \<Rightarrow> pystr" where
  "str s = map of_char s"

text \<open>
  The characters that \<open>str.strip()\<close> and \<open>str.split()\<close> without a separator treat as
  whitespace (the code points for which \<open>str.isspace\<close> holds).
\<close>

definition isspace :: "nat \<Rightarrow> bool" where
  "isspace c \<longleftrightarrow>
     (9 \<le> c \<and> c \<le> 13) \<or> (28 \<le> c \<and> c \<le> 32) \<or> c = 133 \<or> c = 160 \<or>
     c = 5760 \<or> (8192 \<le> c \<and> c \<le> 8202) \<or> c = 8232 \<or> c = 8233 \<or>
     c = 8239 \<or> c = 8287 \<or> c = 12288"

text \<open>\<open>s.strip()\<close>: leading and trailing whitespace removed.\<close>

definition strip :: "pystr \<Rightarrow> pystr" where
  "strip s = rev (dropWhile isspace (rev (dropWhile isspace s)))"

text \<open>
  \<open>s.split(maxsplit=n)\<close> without a separator: runs of whitespace separate the fields,
  at most \<open>n\<close> splits are made, and after the last split the rest of the string (its
  leading whitespace skipped, its trailing whitespace kept) is the last field.
\<close>

fun split_whitespace :: "nat \<Rightarrow> pystr \<Rightarrow> pystr list" where
  "split_whitespace 0 s =
     (let r = dropWhile isspace s in if r = [] then [] else [r])"
| "split_whitespace (Suc n) s =
     (let s1 = dropWhile isspace s in
      if s1 = [] then []
      else takeWhile (\<lambda>c. \<not> isspace c) s1
             # split_whitespace n (dropWhile (\<lambda>c. \<not> isspace c) s1))"

text \<open>
  \<open>s.split()\<close> with no limit on the number of splits: a string of \<open>length s\<close>
  characters has at most \<open>length s\<close> fields, so that many splits are never exceeded.
\<close>

definition split :: "pystr \<Rightarrow> pystr list" where
  "split s = split_whitespace (length s) s"

text \<open>
  \<open>s.replace(old, new)\<close>: every occurrence of \<open>old\<close> replaced, scanning from the left,
  occurrences not overlapping. With an empty \<open>old\<close>, \<open>new\<close> is put before every
  character and at the end.
\<close>

function (sequential) replace :: "pystr \<Rightarrow> pystr \<Rightarrow> pystr \<Rightarrow> pystr" where
  "replace [] new s = new @ concat (map (\<lambda>c. c # new) s)"
| "replace old new [] = []"
| "replace old new (c # cs) =
     (if take (length old) (c # cs) = old
      then new @ replace old new (drop (length old) (c # cs))
      else c # replace old new cs)"
  by pat_completeness auto
termination
  by (relation "measure (\<lambda>(old, new, s). length s)") auto

subsection \<open>Errors\<close>

text \<open>
  The exceptions the notebook's own code can raise, and \<open>External\<close> for whatever an
  external component (file system, audio loader, pretrained model) raises.
\<close>

datatype error =
    ValueError
  | KeyError pystr
  | IndexError
  | NameError string
  | ZeroDivisionError
  | RuntimeError
  | External nat

section \<open>CustomDataset\<close>

text \<open>
  The chain of three replacements applied to the text part of every line, in the
  source's order: \<open>" &apos;"\<close> to \<open>"'"\<close>, then \<open>" &quot;"\<close> to \<open>'"'\<close>, then
  \<open>" &amp;"\<close> to \<open>"&"\<close>. Each pattern starts with a space.
\<close>

definition unescape :: "pystr \<Rightarrow> pystr" where
  "unescape t =
     replace (str '' &amp;'') (str ''&'')
       (replace (str '' &quot;'') [34]
         (replace (str '' &apos;'') [39] t))"

text \<open>
  \<open>audio_id, rest = line.strip().split(maxsplit=1)\<close>: unpacking into two names raises
  ValueError unless the list has exactly two elements.
\<close>

definition split_line :: "pystr \<Rightarrow> error + pystr \<times> pystr" where
  "split_line line =
     (case split_whitespace 1 (strip line) of
        [audio_id, rest] \<Rightarrow> Inr (audio_id, rest)
      | _ \<Rightarrow> Inl ValueError)"

text \<open>
  \<open>self.data\<close> is a dict from identifier to a dict of fields. Python dicts keep
  insertion order and \<open>keys\<close> is read off that order, so both are association lists:
  \<open>AList.update\<close> replaces the value of a key in place and appends a new key at the
  end, as assignment to a dict entry does.
\<close>

type_synonym fields = "(pystr \<times> pystr) list"
type_synonym data = "(pystr \<times> fields) list"

text \<open>The loop over the lines of \<open>text.tc.de\<close>.\<close>

fun load_translated :: "data \<Rightarrow> pystr list \<Rightarrow> error + data" where
  "load_translated d [] = Inr d"
| "load_translated d (line # lines) =
     (case split_line line of
        Inl e \<Rightarrow> Inl e
      | Inr (audio_id, translated) \<Rightarrow>
          load_translated
            (AList.update audio_id [(str ''translated'', unescape translated)] d) lines)"

text \<open>
  The loop over the lines of \<open>text\<close>. \<open>self.data[audio_id]['text'] = text\<close> looks the
  identifier up first and raises KeyError when it is missing.
\<close>

fun load_text :: "data \<Rightarrow> pystr list \<Rightarrow> error + data" where
  "load_text d [] = Inr d"
| "load_text d (line # lines) =
     (case split_line line of
        Inl e \<Rightarrow> Inl e
      | Inr (audio_id, text) \<Rightarrow>
          (case map_of d audio_id of
             None \<Rightarrow> Inl (KeyError audio_id)
           | Some fs \<Rightarrow>
               load_text
                 (AList.update audio_id (AList.update (str ''text'') (unescape text) fs) d)
                 lines))"

text \<open>
  The dataset object. The audio loader returned by \<open>kaldi_loader\<close> is an external
  object with a state of its own; \<open>loader\<close> holds that object as it currently is.
\<close>

record 'l dataset =
  data_path :: pystr
  data :: data
  keys :: "pystr list"
  loader :: 'l

text \<open>
  The directory the files are read from: \<open>data_path\<close> extended by the training or the
  development subset.
\<close>

definition corpus_dir :: "pystr \<Rightarrow> bool \<Rightarrow> pystr" where
  "corpus_dir path is_train =
     path @ (if is_train then str ''/train.en-de_sp'' else str ''/dev.en-de'')"

text \<open>
  \<open>__init__\<close>. The file system and \<open>kaldi_loader\<close> are parameters: \<open>readlines p\<close> is the
  result of opening \<open>p\<close> and calling \<open>readlines()\<close>, \<open>kaldi_loader p\<close> the result of
  building the loader for the index file \<open>p\<close>.
\<close>

definition init ::
  "(pystr \<Rightarrow> error + pystr list) \<Rightarrow> (pystr \<Rightarrow> error + 'l) \<Rightarrow>
   pystr \<Rightarrow> bool \<Rightarrow> error + 'l dataset" where
  "init readlines kaldi_loader path is_train =
     (let dir = corpus_dir path is_train in
      case readlines (dir @ str ''/text.tc.de'') of
        Inl e \<Rightarrow> Inl e
      | Inr lines_de \<Rightarrow>
      (case load_translated [] lines_de of
        Inl e \<Rightarrow> Inl e
      | Inr d1 \<Rightarrow>
      (case readlines (dir @ str ''/text'') of
        Inl e \<Rightarrow> Inl e
      | Inr lines_en \<Rightarrow>
      (case load_text d1 lines_en of
        Inl e \<Rightarrow> Inl e
      | Inr d2 \<Rightarrow>
      (case kaldi_loader (dir @ str ''/wav.scp'') of
        Inl e \<Rightarrow> Inl e
      | Inr l \<Rightarrow>
          Inr \<lparr>data_path = path, data = d2, keys = map fst d2, loader = l\<rparr>)))))"

text \<open>
  \<open>__len__\<close> and \<open>__getitem__\<close> take the object and return it next to their result,
  so that what they do to the object's fields is part of the model.
\<close>

definition len :: "'l dataset \<Rightarrow> nat \<times> 'l dataset" where
  "len self = (length (keys self), self)"

text \<open>
  \<open>xs[i]\<close> on a Python list: indices from \<open>0\<close> count from the front, indices from
  \<open>-1\<close> down to \<open>-len(xs)\<close> from the back, any other index raises IndexError.
\<close>

definition list_get :: "'a list \<Rightarrow> int \<Rightarrow> error + 'a" where
  "list_get xs i =
     (if 0 \<le> i \<and> i < int (length xs) then Inr (xs ! nat i)
      else if i < 0 \<and> - int (length xs) \<le> i then Inr (xs ! nat (int (length xs) + i))
      else Inl IndexError)"

text \<open>Reading a dict entry raises KeyError with the missing key.\<close>

definition dict_get :: "(pystr \<times> 'v) list \<Rightarrow> pystr \<Rightarrow> error + 'v" where
  "dict_get d k = (case map_of d k of None \<Rightarrow> Inl (KeyError k) | Some v \<Rightarrow> Inr v)"

text \<open>
  The dict returned by \<open>__getitem__\<close>: \<open>speech'\<close>, \<open>text'\<close> and \<open>translated'\<close> are
  its entries \<open>'speech'\<close>, \<open>'text'\<close> and \<open>'translated'\<close>.
\<close>

record 'a sample =
  speech' :: 'a
  text' :: pystr
  translated' :: pystr

text \<open>
  \<open>__getitem__\<close>, for an integer index (\<open>int(idx)\<close> is then the index itself). The
  entries of the returned dict are evaluated in the source's order: speech, text,
  translated. \<open>lookup\<close> is the loader's own \<open>__getitem__\<close>: it returns the waveform or
  raises, and leaves the loader object in a new state, which the dataset keeps
  whatever happens afterwards. \<open>astype\<close> is the array conversion to 32-bit floats.
\<close>

definition getitem ::
  "('l \<Rightarrow> pystr \<Rightarrow> (error + 'w) \<times> 'l) \<Rightarrow> ('w \<Rightarrow> 'a) \<Rightarrow> 'l dataset \<Rightarrow> int \<Rightarrow>
   (error + 'a sample) \<times> 'l dataset" where
  "getitem lookup astype self idx =
     (case list_get (keys self) idx of
        Inl e \<Rightarrow> (Inl e, self)
      | Inr k \<Rightarrow>
      (case lookup (loader self) k of
        (Inl e, l) \<Rightarrow> (Inl e, self\<lparr>loader := l\<rparr>)
      | (Inr w, l) \<Rightarrow>
      (case dict_get (data self) k of
        Inl e \<Rightarrow> (Inl e, self\<lparr>loader := l\<rparr>)
      | Inr fs \<Rightarrow>
      (case dict_get fs (str ''text'') of
        Inl e \<Rightarrow> (Inl e, self\<lparr>loader := l\<rparr>)
      | Inr t \<Rightarrow>
      (case dict_get fs (str ''translated'') of
        Inl e \<Rightarrow> (Inl e, self\<lparr>loader := l\<rparr>)
      | Inr tr \<Rightarrow>
          (Inr \<lparr>speech' = astype w, text' = t, translated' = tr\<rparr>,
           self\<lparr>loader := l\<rparr>))))))"


section \<open>CustomFinetuneModel\<close>

text \<open>
  The pretrained components (the ASR pipeline, the translation model, its tokenizer)
  and the tensor library are external. They are taken as they are called: functions
  of their arguments that return a value or raise.
\<close>

datatype device = Cpu | Cuda

text \<open>
  The \<open>speech\<close> argument: a tensor holding one waveform per batch element, on some
  device. \<open>speech[0]\<close> is the first waveform, on the same device, and raises IndexError
  when there is none.
\<close>

record 'w batch =
  device :: device
  rows :: "'w list"

definition batch_first :: "'w batch \<Rightarrow> error + device \<times> 'w" where
  "batch_first b = (case rows b of [] \<Rightarrow> Inl IndexError | w # _ \<Rightarrow> Inr (device b, w))"

text \<open>
  What the method uses of Python and of the tensor library: \<open>str.capitalize\<close>,
  \<open>Tensor.to\<close>, \<open>Tensor.item\<close>, and the arithmetic of Python floats (the float zero,
  addition, division by an integer), on which nothing is assumed.
\<close>

record ('t, 'lt, 'l) runtime =
  capitalize :: "pystr \<Rightarrow> pystr"
  to_device :: "'t \<Rightarrow> device \<Rightarrow> error + 't"
  item :: "'lt \<Rightarrow> 'l"
  fzero :: 'l
  fadd :: "'l \<Rightarrow> 'l \<Rightarrow> 'l"
  fdiv :: "'l \<Rightarrow> int \<Rightarrow> 'l"

text \<open>
  The model object. \<open>asr_model\<close> returns the n-best list, each hypothesis a tuple whose
  first component is the text; \<open>lm\<close> takes the input ids and the labels and returns
  the loss tensor of its output; \<open>log_stats_loss\<close> is the entry \<open>'loss'\<close> of the dict
  \<open>log_stats\<close>, its only entry.
\<close>

record ('w, 'h, 't, 'x, 'lt, 'l) finetune_model =
  log_every :: int
  asr_model :: "device \<times> 'w \<Rightarrow> error + (pystr \<times> 'h) list"
  lm :: "'t \<Rightarrow> 'x \<Rightarrow> error + 'lt"
  lm_tokenizer :: "pystr \<Rightarrow> error + 't"
  log_stats_loss :: 'l
  iter_count :: int

text \<open>
  \<open>__init__\<close>. The three \<open>from_pretrained\<close> calls are external and their results are
  arguments here; \<open>nbest\<close> and \<open>beam_size\<close> only configure the ASR component. The
  accumulator starts at the integer \<open>0\<close>, which a float addition reads as the float
  zero.
\<close>

definition finetune_model_init ::
  "('t, 'lt, 'l) runtime \<Rightarrow> (device \<times> 'w \<Rightarrow> error + (pystr \<times> 'h) list) \<Rightarrow>
   ('t \<Rightarrow> 'x \<Rightarrow> error + 'lt) \<Rightarrow> (pystr \<Rightarrow> error + 't) \<Rightarrow> int \<Rightarrow>
   ('w, 'h, 't, 'x, 'lt, 'l) finetune_model" where
  "finetune_model_init rt asr seq2seq tokenizer n =
     \<lparr>log_every = n, asr_model = asr, lm = seq2seq, lm_tokenizer = tokenizer,
      log_stats_loss = fzero rt, iter_count = 0\<rparr>"

text \<open>\<open>collect_feats\<close>; the extra positional and keyword arguments are not used.\<close>

definition collect_feats ::
  "('w, 'h, 't, 'x, 'lt, 'l) finetune_model \<Rightarrow> 'a \<Rightarrow> 'a \<Rightarrow> 'b list \<Rightarrow> (pystr \<times> 'c) list \<Rightarrow>
   (pystr \<times> 'a) list \<times> ('w, 'h, 't, 'x, 'lt, 'l) finetune_model" where
  "collect_feats self speech speech_lengths args kwargs =
     ([(str ''feats'', speech), (str ''feats_lengths'', speech_lengths)], self)"

text \<open>
  The first part of \<open>forward\<close>, up to \<open>loss = lm_output.loss\<close>: the ASR pipeline on
  \<open>speech[0]\<close>, the text of its first hypothesis, the instruction prefix, the tokenizer,
  the move to the device of \<open>speech\<close>, the translation model.
\<close>

definition lm_loss ::
  "('t, 'lt, 'l) runtime \<Rightarrow> ('w, 'h, 't, 'x, 'lt, 'l) finetune_model \<Rightarrow> 'w batch \<Rightarrow> 'x \<Rightarrow>
   error + 'lt" where
  "lm_loss rt self speech text =
     (case batch_first speech of
        Inl e \<Rightarrow> Inl e
      | Inr s0 \<Rightarrow>
      (case asr_model self s0 of
        Inl e \<Rightarrow> Inl e
      | Inr nbest \<Rightarrow>
      (case nbest of
        [] \<Rightarrow> Inl IndexError
      | hyp # _ \<Rightarrow>
      (let asr_texts = str ''translate English to German: '' @ capitalize rt (fst hyp) in
       case lm_tokenizer self asr_texts of
        Inl e \<Rightarrow> Inl e
      | Inr input_ids \<Rightarrow>
      (case to_device rt input_ids (device speech) of
        Inl e \<Rightarrow> Inl e
      | Inr target_tokens \<Rightarrow> lm self target_tokens text)))))"

text \<open>
  \<open>forward\<close>. It returns its result (or the exception raised), the object as the call
  leaves it, and the lines it printed: a line \<open>(n, x)\<close> stands for the text
  \<open>[n] - loss: x\<close>. The fields are updated before the remainder is taken, so a zero
  \<open>log_every\<close> raises after the update. The name \<open>stats\<close> in the return statement is
  bound neither in the method nor in the class, so it is looked up in \<open>globals\<close>,
  the names bound at module level.
\<close>

definition forward ::
  "('t, 'lt, 'l) runtime \<Rightarrow> (string \<rightharpoonup> 'v) \<Rightarrow> ('w, 'h, 't, 'x, 'lt, 'l) finetune_model \<Rightarrow>
   'w batch \<Rightarrow> 'sl \<Rightarrow> 'x \<Rightarrow> 'tl \<Rightarrow>
   (error + 'lt \<times> 'v \<times> unit) \<times> ('w, 'h, 't, 'x, 'lt, 'l) finetune_model \<times> (int \<times> 'l) list" where
  "forward rt globals self speech speech_lengths text text_lengths =
     (case lm_loss rt self speech text of
        Inl e \<Rightarrow> (Inl e, self, [])
      | Inr loss \<Rightarrow>
      (let self1 = self\<lparr>log_stats_loss := fadd rt (log_stats_loss self) (item rt loss)\<rparr>;
           self2 = self1\<lparr>iter_count := iter_count self1 + 1\<rparr>
       in if log_every self2 = 0 then (Inl ZeroDivisionError, self2, [])
          else
            (let (self3, printed) =
                   (if iter_count self2 mod log_every self2 = 0
                    then (self2\<lparr>log_stats_loss := fzero rt\<rparr>,
                          [(iter_count self2, fdiv rt (log_stats_loss self2) (log_every self2))])
                    else (self2, []))
             in case globals ''stats'' of
                  None \<Rightarrow> (Inl (NameError ''stats''), self3, printed)
                | Some stats \<Rightarrow> (Inr (loss, stats, ()), self3, printed))))"

text \<open>
  The names bound at module level when the trainer runs, in the order of the
  notebook's cells: imports, constants, classes, functions and variables
  (\<open>pretrained_model\<close> is deleted again by the cell that binds it).
\<close>

definition notebook_globals :: "string list" where
  "notebook_globals =
     [''torch'', ''nn'', ''np'', ''librosa'', ''Path'', ''create_lora_adapter'',
      ''AbsESPnetModel'', ''kaldi_loader'', ''AutoTokenizer'', ''AutoModelForSeq2SeqLM'',
      ''ez'', ''TRAIN_KEY'', ''FINETUNE_MODEL'', ''HF_MODEl'', ''DATA_PATH'', ''DUMP_DIR'',
      ''EXP_DIR'', ''STATS_DIR'', ''CustomDataset'', ''CustomFinetuneModel'',
      ''lm_tokenizer'', ''data_info'', ''count_parameters'', ''build_model_fn'',
      ''Speech2Text'', ''training_config'', ''finetune_config'', ''train_dataset'',
      ''dev_dataset'', ''trainer'']"

text \<open>The module namespace of the notebook, whatever the values of its names.\<close>

definition notebook_namespace :: "(string \<Rightarrow> 'v) \<Rightarrow> (string \<rightharpoonup> 'v)" where
  "notebook_namespace val n = (if n \<in> set notebook_globals then Some (val n) else None)"

text \<open>
  A sequence of calls of \<open>forward\<close> on one object, each call given as its four
  arguments: what each call printed, and the object after the last call.
\<close>

fun forward_calls ::
  "('t, 'lt, 'l) runtime \<Rightarrow> (string \<rightharpoonup> 'v) \<Rightarrow> ('w, 'h, 't, 'x, 'lt, 'l) finetune_model \<Rightarrow>
   ('w batch \<times> 'sl \<times> 'x \<times> 'tl) list \<Rightarrow>
   (int \<times> 'l) list list \<times> ('w, 'h, 't, 'x, 'lt, 'l) finetune_model" where
  "forward_calls rt globals self [] = ([], self)"
| "forward_calls rt globals self ((speech, speech_lengths, text, text_lengths) # calls) =
     (case forward rt globals self speech speech_lengths text text_lengths of
        (result, self', printed) \<Rightarrow>
          (case forward_calls rt globals self' calls of
             (outs, self'') \<Rightarrow> (printed # outs, self'')))"

section \<open>Notions the statements use\<close>

text \<open>
  The identifiers present in a file: the first whitespace-separated field of each of
  its lines that has one.
\<close>

definition identifiers :: "pystr list \<Rightarrow> pystr set" where
  "identifiers lines =
     set (map hd (filter (\<lambda>fs. fs \<noteq> []) (map (\<lambda>line. split (strip line)) lines)))"

text \<open>\<open>old in s\<close>: the string \<open>old\<close> occurs in \<open>s\<close> at some position.\<close>

fun contains :: "pystr \<Rightarrow> pystr \<Rightarrow> bool" where
  "contains old [] = (old = [])"
| "contains old (c # cs) = (take (length old) (c # cs) = old \<or> contains old cs)"

text \<open>
  \<open>self.data[k]['text']\<close> and \<open>self.data[k]['translated']\<close>, the transcript and the
  translation stored for an identifier, as \<open>__getitem__\<close> reads them.
\<close>

definition data_text :: "'l dataset \<Rightarrow> pystr \<Rightarrow> error + pystr" where
  "data_text self k =
     (case dict_get (data self) k of
        Inl e \<Rightarrow> Inl e
      | Inr fs \<Rightarrow> dict_get fs (str ''text''))"

definition data_translated :: "'l dataset \<Rightarrow> pystr \<Rightarrow> error + pystr" where
  "data_translated self k =
     (case dict_get (data self) k of
        Inl e \<Rightarrow> Inl e
      | Inr fs \<Rightarrow> dict_get fs (str ''translated''))"

text \<open>
  The shape \<open><identifier><whitespace><text>\<close> of a line: an identifier is not empty
  and has no whitespace, a text is not empty and neither starts nor ends with
  whitespace, a blank string is whitespace only.
\<close>

definition blank :: "pystr \<Rightarrow> bool" where
  "blank s = list_all isspace s"

definition is_identifier :: "pystr \<Rightarrow> bool" where
  "is_identifier k = (k \<noteq> [] \<and> list_all (\<lambda>c. \<not> isspace c) k)"

definition is_text :: "pystr \<Rightarrow> bool" where
  "is_text r = (r \<noteq> [] \<and> \<not> isspace (hd r) \<and> \<not> isspace (last r))"

text \<open>
  The losses of those calls of a sequence that get through the first part of
  \<open>forward\<close>, in call order: these are the calls that reach the counter.
\<close>

definition counted ::
  "('t, 'lt, 'l) runtime \<Rightarrow> ('w, 'h, 't, 'x, 'lt, 'l) finetune_model \<Rightarrow>
   ('w batch \<times> 'sl \<times> 'x \<times> 'tl) list \<Rightarrow> 'lt list" where
  "counted rt self calls =
     concat (map (\<lambda>(speech, speech_lengths, text, text_lengths).
                    case lm_loss rt self speech text of Inl e \<Rightarrow> [] | Inr loss \<Rightarrow> [loss])
                 calls)"

section \<open>Test fixtures\<close>

text \<open>
  A file system that holds the two text files of one corpus directory and nothing
  else: opening any other path raises.
\<close>

definition corpus_files ::
  "pystr \<Rightarrow> pystr list \<Rightarrow> pystr list \<Rightarrow> pystr \<Rightarrow> error + pystr list" where
  "corpus_files dir lines_de lines_en p =
     (if p = dir @ str ''/text.tc.de'' then Inr lines_de
      else if p = dir @ str ''/text'' then Inr lines_en
      else Inl (External 2))"

text \<open>
  An audio loader without a state of its own: it holds the given waveforms,
  whatever the index file, and a lookup leaves it as it is.
\<close>

definition audio_lookup ::
  "(pystr \<times> 'w) list \<Rightarrow> pystr \<Rightarrow> (error + 'w) \<times> (pystr \<times> 'w) list" where
  "audio_lookup entries k = (dict_get entries k, entries)"

definition audio_index :: "(pystr \<times> 'w) list \<Rightarrow> pystr \<Rightarrow> error + (pystr \<times> 'w) list" where
  "audio_index entries p = Inr entries"



text \<open>
  A model for tests: exact arithmetic on the reals in place of the floats, an ASR
  component that spells the waveform out, a tokenizer that returns the code points,
  and a translation model whose loss is the label it is given.
\<close>

definition test_runtime :: "(pystr, real, real) runtime" where
  "test_runtime =
     \<lparr>capitalize = (\<lambda>s. s), to_device = (\<lambda>t d. Inr t), item = (\<lambda>x. x),
      fzero = 0, fadd = (+), fdiv = (\<lambda>x n. x / of_int n)\<rparr>"

definition test_asr :: "device \<times> nat list \<Rightarrow> error + (pystr \<times> nat) list" where
  "test_asr s =
     (if snd s = [] then Inl (External 1)
      else Inr [(map (\<lambda>x. 97 + x mod 26) (snd s), length (snd s))])"

definition test_model :: "int \<Rightarrow> (nat list, nat, pystr, real, real, real) finetune_model" where
  "test_model n = finetune_model_init test_runtime test_asr (\<lambda>ids labels. Inr labels) Inr n"

section \<open>Properties of CustomDataset\<close>

lemma text_names_differ: "str ''/text'' \<noteq> str ''/text.tc.de''"
  by (simp add: str_def)

lemma init_corpus_files:
  "init (corpus_files (corpus_dir path is_train) lines_de lines_en) (audio_index entries)
        path is_train =
     (case load_translated [] lines_de of
        Inl e \<Rightarrow> Inl e
      | Inr d1 \<Rightarrow>
          (case load_text d1 lines_en of
             Inl e \<Rightarrow> Inl e
           | Inr d2 \<Rightarrow>
               Inr \<lparr>data_path = path, data = d2, keys = map fst d2,
                    loader = entries\<rparr>))"
  by (simp add: init_def corpus_files_def audio_index_def text_names_differ Let_def
           split: sum.splits)

subsection \<open>Lines and fields\<close>

lemma split_whitespace_Nil_iff:
  "split_whitespace n s = [] \<longleftrightarrow> dropWhile isspace s = []"
  by (cases n) (simp_all add: Let_def)

lemma split_whitespace_1:
  "split_whitespace (Suc 0) s =
     (let s1 = dropWhile isspace s in
      if s1 = [] then []
      else takeWhile (\<lambda>c. \<not> isspace c) s1
             # split_whitespace 0 (dropWhile (\<lambda>c. \<not> isspace c) s1))"
  by (simp only: split_whitespace.simps(2))

lemma split_unfold:
  "split s =
     (let s1 = dropWhile isspace s in
      if s1 = [] then []
      else takeWhile (\<lambda>c. \<not> isspace c) s1
             # split_whitespace (length s - Suc 0) (dropWhile (\<lambda>c. \<not> isspace c) s1))"
proof (cases s)
  case Nil
  then show ?thesis by (simp add: split_def)
next
  case (Cons c cs)
  then have "length s = Suc (length s - Suc 0)" by simp
  then have "split s = split_whitespace (Suc (length s - Suc 0)) s"
    by (simp add: split_def)
  then show ?thesis by (simp only: split_whitespace.simps(2))
qed

lemma split_line_error: "split_line line = Inl e \<Longrightarrow> e = ValueError"
  by (auto simp: split_line_def split: list.splits)

lemma split_line_ValueError_iff:
  "split_line line = Inl ValueError \<longleftrightarrow> length (split (strip line)) < 2"
proof -
  define s1 where "s1 = dropWhile isspace (strip line)"
  define rest where "rest = dropWhile (\<lambda>c. \<not> isspace c) s1"
  show ?thesis
  proof (cases "s1 = []")
    case True
    then show ?thesis
      by (simp add: split_line_def split_whitespace_1 split_unfold s1_def [symmetric]
               del: split_whitespace.simps)
  next
    case False
    have a: "split_whitespace (Suc 0) (strip line) =
               takeWhile (\<lambda>c. \<not> isspace c) s1 # split_whitespace 0 rest"
      using False
      by (simp add: split_whitespace_1 s1_def [symmetric] rest_def del: split_whitespace.simps)
    have b: "split (strip line) =
               takeWhile (\<lambda>c. \<not> isspace c) s1
                 # split_whitespace (length (strip line) - Suc 0) rest"
      using False
      by (simp add: split_unfold s1_def [symmetric] rest_def del: split_whitespace.simps)
    have c: "split_whitespace (length (strip line) - Suc 0) rest = [] \<longleftrightarrow>
             split_whitespace 0 rest = []"
      by (simp only: split_whitespace_Nil_iff)
    have d: "split_whitespace 0 rest = [] \<or> (\<exists>r. split_whitespace 0 rest = [r])"
      by (simp add: Let_def)
    show ?thesis
      using c d by (auto simp: split_line_def a b simp del: split_whitespace.simps)
  qed
qed

lemma split_line_Inr_hd:
  assumes "split_line line = Inr (k, r)"
  shows "split (strip line) \<noteq> [] \<and> hd (split (strip line)) = k"
proof -
  define s1 where "s1 = dropWhile isspace (strip line)"
  have ne: "s1 \<noteq> []"
    using assms
    by (auto simp: split_line_def split_whitespace_1 s1_def [symmetric]
             simp del: split_whitespace.simps)
  have "split_whitespace (Suc 0) (strip line) = [k, r]"
    using assms by (auto simp: split_line_def split: list.splits)
  then have "k = takeWhile (\<lambda>c. \<not> isspace c) s1"
    using ne
    by (simp add: split_whitespace_1 s1_def [symmetric] del: split_whitespace.simps)
  then show ?thesis
    using ne by (simp add: split_unfold s1_def [symmetric] del: split_whitespace.simps)
qed

lemma split_line_cases:
  "split_line line = Inl ValueError \<or> (\<exists>k r. split_line line = Inr (k, r))"
  by (cases "split_line line") (auto dest: split_line_error)

lemma identifiers_Nil: "identifiers [] = {}"
  by (simp add: identifiers_def)

lemma identifiers_Cons_Inr:
  "split_line line = Inr (k, r) \<Longrightarrow> identifiers (line # lines) = insert k (identifiers lines)"
  using split_line_Inr_hd [of line k r] by (simp add: identifiers_def)

subsection \<open>The two loops\<close>

lemma load_translated_malformed:
  "\<exists>line\<in>set lines. split_line line = Inl ValueError \<Longrightarrow>
   load_translated d lines = Inl ValueError"
proof (induction lines arbitrary: d)
  case Nil
  then show ?case by simp
next
  case (Cons line lines)
  show ?case
  proof (cases "split_line line")
    case (Inl e)
    then show ?thesis by (simp add: split_line_error)
  next
    case (Inr p)
    with Cons.prems have "\<exists>l\<in>set lines. split_line l = Inl ValueError" by auto
    with Inr Cons.IH show ?thesis by (simp split: prod.splits)
  qed
qed

lemma load_text_malformed:
  "\<exists>line\<in>set lines. split_line line = Inl ValueError \<Longrightarrow>
   \<exists>e. load_text d lines = Inl e"
proof (induction lines arbitrary: d)
  case Nil
  then show ?case by simp
next
  case (Cons line lines)
  show ?case
  proof (cases "split_line line")
    case (Inl e)
    then show ?thesis by simp
  next
    case (Inr p)
    with Cons.prems have "\<exists>l\<in>set lines. split_line l = Inl ValueError" by auto
    with Inr Cons.IH show ?thesis by (simp split: prod.splits option.splits)
  qed
qed

lemma load_translated_keys:
  "load_translated d lines = Inr d' \<Longrightarrow>
   set (map fst d') = set (map fst d) \<union> identifiers lines"
proof (induction lines arbitrary: d)
  case Nil
  then show ?case by (simp add: identifiers_Nil)
next
  case (Cons line lines)
  from Cons.prems obtain k r where s: "split_line line = Inr (k, r)"
    by (cases "split_line line") auto
  with Cons.prems have
    "load_translated (AList.update k [(str ''translated'', unescape r)] d) lines = Inr d'"
    by simp
  from Cons.IH [OF this] show ?case
    by (auto simp: identifiers_Cons_Inr [OF s] AList.update_keys split: if_splits)
qed

lemma load_translated_distinct:
  "load_translated d lines = Inr d' \<Longrightarrow> distinct (map fst d) \<Longrightarrow> distinct (map fst d')"
proof (induction lines arbitrary: d)
  case Nil
  then show ?case by simp
next
  case (Cons line lines)
  from Cons.prems obtain k r where s: "split_line line = Inr (k, r)"
    by (cases "split_line line") auto
  with Cons.prems have
    "load_translated (AList.update k [(str ''translated'', unescape r)] d) lines = Inr d'"
    by simp
  from Cons.IH [OF this] Cons.prems(2) show ?case
    by (simp add: AList.distinct_update)
qed

lemma text_not_translated: "str ''text'' \<noteq> str ''translated''"
  by (simp add: str_def)

lemma load_translated_no_text:
  "load_translated d lines = Inr d' \<Longrightarrow>
   (\<And>k fs. map_of d k = Some fs \<Longrightarrow> map_of fs (str ''text'') = None) \<Longrightarrow>
   map_of d' k = Some fs \<Longrightarrow> map_of fs (str ''text'') = None"
proof (induction lines arbitrary: d)
  case Nil
  then show ?case by simp
next
  case (Cons line lines)
  from Cons.prems(1) obtain k' r where s: "split_line line = Inr (k', r)"
    by (cases "split_line line") auto
  with Cons.prems have l:
    "load_translated (AList.update k' [(str ''translated'', unescape r)] d) lines = Inr d'"
    by simp
  show ?case
  proof (rule Cons.IH [OF l _ Cons.prems(3)])
    fix j gs
    assume "map_of (AList.update k' [(str ''translated'', unescape r)] d) j = Some gs"
    then show "map_of gs (str ''text'') = None"
      using Cons.prems(2) text_not_translated
      by (auto simp: AList.update_conv' split: if_splits)
  qed
qed

lemma load_text_keys:
  "load_text d lines = Inr d' \<Longrightarrow>
   map fst d' = map fst d \<and> identifiers lines \<subseteq> set (map fst d)"
proof (induction lines arbitrary: d)
  case Nil
  then show ?case by (simp add: identifiers_Nil)
next
  case (Cons line lines)
  from Cons.prems obtain k r where s: "split_line line = Inr (k, r)"
    by (cases "split_line line") auto
  with Cons.prems obtain fs where m: "map_of d k = Some fs"
    by (cases "map_of d k") auto
  then have kin: "k \<in> set (map fst d)"
    by (metis map_of_eq_None_iff option.distinct(1) set_map)
  from s m Cons.prems have
    "load_text (AList.update k (AList.update (str ''text'') (unescape r) fs) d) lines = Inr d'"
    by simp
  from Cons.IH [OF this] kin show ?case
    by (simp add: identifiers_Cons_Inr [OF s] AList.update_keys)
qed

lemma load_text_other:
  "load_text d lines = Inr d' \<Longrightarrow> k \<notin> identifiers lines \<Longrightarrow> map_of d' k = map_of d k"
proof (induction lines arbitrary: d)
  case Nil
  then show ?case by simp
next
  case (Cons line lines)
  from Cons.prems obtain k' r where s: "split_line line = Inr (k', r)"
    by (cases "split_line line") auto
  with Cons.prems obtain fs where m: "map_of d k' = Some fs"
    by (cases "map_of d k'") auto
  from s m Cons.prems have l:
    "load_text (AList.update k' (AList.update (str ''text'') (unescape r) fs) d) lines = Inr d'"
    by simp
  from Cons.prems(2) have "k \<noteq> k'" "k \<notin> identifiers lines"
    by (simp_all add: identifiers_Cons_Inr [OF s])
  with Cons.IH [OF l] show ?case
    by (simp add: AList.update_conv')
qed

lemma load_text_error:
  "load_text d lines = Inl e \<Longrightarrow>
   e = ValueError \<or> (\<exists>k. e = KeyError k \<and> k \<in> identifiers lines \<and> k \<notin> set (map fst d))"
proof (induction lines arbitrary: d)
  case Nil
  then show ?case by simp
next
  case (Cons line lines)
  show ?case
  proof (cases "split_line line")
    case (Inl e')
    with Cons.prems show ?thesis by (auto dest: split_line_error)
  next
    case (Inr p)
    then obtain k r where s: "split_line line = Inr (k, r)" by (cases p) auto
    show ?thesis
    proof (cases "map_of d k")
      case None
      then have "k \<notin> set (map fst d)"
        by (simp add: map_of_eq_None_iff)
      with None s Cons.prems show ?thesis
        by (auto simp: identifiers_Cons_Inr [OF s])
    next
      case (Some fs)
      then have kin: "k \<in> set (map fst d)"
        by (metis map_of_eq_None_iff option.distinct(1) set_map)
      from s Some Cons.prems have
        "load_text (AList.update k (AList.update (str ''text'') (unescape r) fs) d) lines = Inl e"
        by simp
      from Cons.IH [OF this] kin show ?thesis
        by (auto simp: identifiers_Cons_Inr [OF s] AList.update_keys)
    qed
  qed
qed

lemma load_translated_ok:
  "\<forall>line\<in>set lines. split_line line \<noteq> Inl ValueError \<Longrightarrow>
   \<exists>d'. load_translated d lines = Inr d'"
proof (induction lines arbitrary: d)
  case Nil
  then show ?case by simp
next
  case (Cons line lines)
  then obtain k r where s: "split_line line = Inr (k, r)"
    using split_line_cases [of line] by auto
  with Cons show ?case by simp
qed

lemma load_text_ok:
  "\<forall>line\<in>set lines. split_line line \<noteq> Inl ValueError \<Longrightarrow>
   identifiers lines \<subseteq> set (map fst d) \<Longrightarrow> \<exists>d'. load_text d lines = Inr d'"
proof (induction lines arbitrary: d)
  case Nil
  then show ?case by simp
next
  case (Cons line lines)
  then obtain k r where s: "split_line line = Inr (k, r)"
    using split_line_cases [of line] by auto
  with Cons.prems(2) have kin: "k \<in> set (map fst d)" and sub: "identifiers lines \<subseteq> set (map fst d)"
    by (simp_all add: identifiers_Cons_Inr [OF s])
  then obtain fs where m: "map_of d k = Some fs"
    by (metis map_of_eq_None_iff not_Some_eq set_map)
  have "\<exists>d'. load_text (AList.update k (AList.update (str ''text'') (unescape r) fs) d) lines
          = Inr d'"
    using Cons.prems(1) sub kin by (intro Cons.IH) (simp_all add: AList.update_keys)
  with s m show ?case by simp
qed

lemma load_translated_error: "load_translated d lines = Inl e \<Longrightarrow> e = ValueError"
proof (induction lines arbitrary: d)
  case Nil
  then show ?case by simp
next
  case (Cons line lines)
  then show ?case
    by (cases "split_line line") (auto dest: split_line_error)
qed

lemma wellformed_iff:
  "2 \<le> length (split (strip line)) \<longleftrightarrow> split_line line \<noteq> Inl ValueError"
  by (simp add: split_line_ValueError_iff not_less)

lemma init_Inr_data:
  assumes "readlines (corpus_dir path is_train @ str ''/text.tc.de'') = Inr lines_de"
    and "readlines (corpus_dir path is_train @ str ''/text'') = Inr lines_en"
    and "init readlines kaldi_loader path is_train = Inr ds"
  shows "\<exists>d1. load_translated [] lines_de = Inr d1 \<and> load_text d1 lines_en = Inr (data ds) \<and>
              keys ds = map fst (data ds)"
  using assms by (auto simp: init_def Let_def split: sum.splits)

subsection \<open>Replacement of escapes\<close>

lemma replace_skip_first:
  "p \<notin> set a \<Longrightarrow> replace (p # ps) new (a @ rest) = a @ replace (p # ps) new rest"
  by (induction a) auto

lemma contains_prefix: "contains (p @ q) s \<Longrightarrow> contains p s"
proof (induction s)
  case Nil
  then show ?case by simp
next
  case (Cons c cs)
  show ?case
  proof (cases "take (length (p @ q)) (c # cs) = p @ q")
    case True
    then have "take (length p) (take (length (p @ q)) (c # cs)) = take (length p) (p @ q)"
      by simp
    then have "take (length p) (c # cs) = p"
      by (simp add: min_def del: take_Cons')
    then show ?thesis by simp
  next
    case False
    with Cons show ?thesis by simp
  qed
qed

lemma replace_absent:
  "\<not> contains (p # ps) s \<Longrightarrow> replace (p # ps) new s = s"
  by (induction s) auto

lemma take_match_before:
  assumes "c \<notin> set (tl pat)" and "x \<noteq> []"
  shows "take (length pat) (x @ c # y) = pat \<longleftrightarrow> take (length pat) x = pat"
proof (cases "length pat \<le> length x")
  case True
  then show ?thesis by simp
next
  case False
  then have short: "length x < length pat" by simp
  have a: "take (length pat) x \<noteq> pat"
  proof
    assume "take (length pat) x = pat"
    then have "length (take (length pat) x) = length pat" by (rule arg_cong)
    with short show False by simp
  qed
  have b: "take (length pat) (x @ c # y) \<noteq> pat"
  proof
    assume eq: "take (length pat) (x @ c # y) = pat"
    have "take (length pat) (x @ c # y) ! length x = c"
      using short by (simp add: nth_append)
    then have at: "pat ! length x = c"
      by (simp only: eq)
    obtain p ps where pat: "pat = p # ps"
      using short by (cases pat) auto
    obtain n where n: "length x = Suc n"
      using assms(2) by (cases x) auto
    from at have "ps ! n = c"
      by (simp add: pat n)
    moreover have "n < length ps"
      using short by (simp add: pat n)
    ultimately have "c \<in> set ps"
      using nth_mem by blast
    with assms(1) show False by (simp add: pat)
  qed
  from a b show ?thesis by simp
qed

lemma replace_unfold:
  assumes "pat \<noteq> []" and "s \<noteq> []"
  shows "replace pat new s =
           (if take (length pat) s = pat then new @ replace pat new (drop (length pat) s)
            else hd s # replace pat new (tl s))"
proof -
  obtain p ps where pat: "pat = p # ps"
    using assms(1) by (cases pat) auto
  obtain c cs where s: "s = c # cs"
    using assms(2) by (cases s) auto
  show ?thesis
    unfolding pat s by (simp only: replace.simps(3) list.sel)
qed

lemma replace_Nil: "pat \<noteq> [] \<Longrightarrow> replace pat new [] = []"
  by (cases pat) simp_all

lemma replace_split:
  assumes "pat \<noteq> []" and "c \<notin> set (tl pat)"
  shows "replace pat new (x @ c # y) = replace pat new x @ replace pat new (c # y)"
proof (induction x rule: length_induct)
  case (1 x)
  show ?case
  proof (cases "x = []")
    case True
    then show ?thesis by (simp add: replace_Nil [OF assms(1)])
  next
    case ne: False
    have ne2: "x @ c # y \<noteq> []" by simp
    note m = take_match_before [OF assms(2) ne, of y]
    note u1 = replace_unfold [OF assms(1) ne2, of new]
    note u2 = replace_unfold [OF assms(1) ne, of new]
    show ?thesis
    proof (cases "take (length pat) x = pat")
      case True
      then have "length (take (length pat) x) = length pat" by (rule arg_cong)
      then have le: "length pat \<le> length x" by simp
      have "0 < length pat" using assms(1) by simp
      then have shorter: "length (drop (length pat) x) < length x"
        using ne by simp
      have ih: "replace pat new (drop (length pat) x @ c # y) =
                  replace pat new (drop (length pat) x) @ replace pat new (c # y)"
        using "1.IH" shorter by blast
      have d: "drop (length pat) (x @ c # y) = drop (length pat) x @ c # y"
        using le by simp
      from True m have t1: "take (length pat) (x @ c # y) = pat" by blast
      have "replace pat new (x @ c # y) = new @ replace pat new (drop (length pat) (x @ c # y))"
        by (rule trans [OF u1 if_P [OF t1]])
      also have "\<dots> = new @ replace pat new (drop (length pat) x) @ replace pat new (c # y)"
        by (simp only: d ih)
      also have "\<dots> = replace pat new x @ replace pat new (c # y)"
        by (simp only: trans [OF u2 if_P [OF True]] append_assoc)
      finally show ?thesis .
    next
      case False
      from False m have f2: "take (length pat) (x @ c # y) \<noteq> pat" by blast
      have shorter: "length (tl x) < length x"
        using ne by simp
      have ih: "replace pat new (tl x @ c # y) = replace pat new (tl x) @ replace pat new (c # y)"
        using "1.IH" shorter by blast
      have h: "hd (x @ c # y) = hd x" "tl (x @ c # y) = tl x @ c # y"
        using ne by simp_all
      have "replace pat new (x @ c # y) = hd x # replace pat new (tl x @ c # y)"
        using trans [OF u1 if_not_P [OF f2]] by (simp only: h)
      also have "\<dots> = hd x # replace pat new (tl x) @ replace pat new (c # y)"
        by (simp only: ih)
      also have "\<dots> = replace pat new x @ replace pat new (c # y)"
        by (simp only: trans [OF u2 if_not_P [OF False]] append_Cons)
      finally show ?thesis .
    qed
  qed
qed

lemma unescape_apos:
  "unescape (a @ str '' &apos;'' @ b) = unescape a @ [39] @ unescape b"
proof -
  have 1: "replace (str '' &apos;'') [39] (a @ str '' &apos;'' @ b) =
             replace (str '' &apos;'') [39] a @ [39] @ replace (str '' &apos;'') [39] b"
    using replace_split [of "str '' &apos;''" 32 "[39]" a "str ''&apos;'' @ b"]
    by (simp add: str_def)
  have 2: "replace (str '' &quot;'') [34] (x @ [39] @ y) =
             replace (str '' &quot;'') [34] x @ [39] @ replace (str '' &quot;'') [34] y" for x y
    using replace_split [of "str '' &quot;''" 39 "[34]" x y]
    by (simp add: str_def)
  have 3: "replace (str '' &amp;'') (str ''&'') (x @ [39] @ y) =
             replace (str '' &amp;'') (str ''&'') x @ [39] @ replace (str '' &amp;'') (str ''&'') y"
    for x y
    using replace_split [of "str '' &amp;''" 39 "str ''&''" x y]
    by (simp add: str_def)
  show ?thesis
    by (simp only: unescape_def 1 2 3)
qed

lemma unescape_quot:
  "unescape (a @ str '' &quot;'' @ b) = unescape a @ [34] @ unescape b"
proof -
  have 0: "replace (str '' &apos;'') [39] (str ''&quot;'' @ b) =
             str ''&quot;'' @ replace (str '' &apos;'') [39] b"
    using replace_skip_first [of 32 "str ''&quot;''"]
    by (simp add: str_def)
  have 1: "replace (str '' &apos;'') [39] (a @ str '' &quot;'' @ b) =
             replace (str '' &apos;'') [39] a @ str '' &quot;'' @ replace (str '' &apos;'') [39] b"
    using replace_split [of "str '' &apos;''" 32 "[39]" a "str ''&quot;'' @ b"] 0
    by (simp add: str_def)
  have 2: "replace (str '' &quot;'') [34] (x @ str '' &quot;'' @ y) =
             replace (str '' &quot;'') [34] x @ [34] @ replace (str '' &quot;'') [34] y" for x y
    using replace_split [of "str '' &quot;''" 32 "[34]" x "str ''&quot;'' @ y"]
    by (simp add: str_def)
  have 3: "replace (str '' &amp;'') (str ''&'') (x @ [34] @ y) =
             replace (str '' &amp;'') (str ''&'') x @ [34] @ replace (str '' &amp;'') (str ''&'') y"
    for x y
    using replace_split [of "str '' &amp;''" 34 "str ''&''" x y]
    by (simp add: str_def)
  show ?thesis
    by (simp only: unescape_def 1 2 3)
qed

lemma unescape_amp:
  "unescape (a @ str '' &amp;'' @ b) = unescape a @ [38] @ unescape b"
proof -
  have 0: "replace (str '' &apos;'') [39] (str ''&amp;'' @ b) =
             str ''&amp;'' @ replace (str '' &apos;'') [39] b"
    using replace_skip_first [of 32 "str ''&amp;''"]
    by (simp add: str_def)
  have 1: "replace (str '' &apos;'') [39] (a @ str '' &amp;'' @ b) =
             replace (str '' &apos;'') [39] a @ str '' &amp;'' @ replace (str '' &apos;'') [39] b"
    using replace_split [of "str '' &apos;''" 32 "[39]" a "str ''&amp;'' @ b"] 0
    by (simp add: str_def)
  have q0: "replace (str '' &quot;'') [34] (str ''&amp;'' @ y) =
             str ''&amp;'' @ replace (str '' &quot;'') [34] y" for y
    using replace_skip_first [of 32 "str ''&amp;''"]
    by (simp add: str_def)
  have 2: "replace (str '' &quot;'') [34] (x @ str '' &amp;'' @ y) =
             replace (str '' &quot;'') [34] x @ str '' &amp;'' @ replace (str '' &quot;'') [34] y"
    for x y
    using replace_split [of "str '' &quot;''" 32 "[34]" x "str ''&amp;'' @ y"] q0
    by (simp add: str_def)
  have 3: "replace (str '' &amp;'') (str ''&'') (x @ str '' &amp;'' @ y) =
             replace (str '' &amp;'') (str ''&'') x @ [38] @ replace (str '' &amp;'') (str ''&'') y"
    for x y
    using replace_split [of "str '' &amp;''" 32 "str ''&''" x "str ''&amp;'' @ y"]
    by (simp add: str_def)
  show ?thesis
    by (simp only: unescape_def 1 2 3)
qed

lemma unescape_no_space_amp:
  assumes "\<not> contains [32, 38] s"
  shows "unescape s = s"
proof -
  have "\<not> contains ([32, 38] @ q) s" for q
    using assms contains_prefix by blast
  then have "\<not> contains (str '' &apos;'') s" "\<not> contains (str '' &quot;'') s"
    "\<not> contains (str '' &amp;'') s"
    by (simp_all add: str_def)
  then have "replace (str '' &apos;'') [39] s = s" "replace (str '' &quot;'') [34] s = s"
    "replace (str '' &amp;'') (str ''&'') s = s"
    by (simp_all add: str_def replace_absent)
  then show ?thesis by (simp add: unescape_def)
qed

subsection \<open>What is stored for an identifier\<close>

lemma load_text_append:
  "load_text d (xs @ ys) =
     (case load_text d xs of Inl e \<Rightarrow> Inl e | Inr d' \<Rightarrow> load_text d' ys)"
  by (induction xs arbitrary: d) (auto split: sum.splits option.splits)

lemma stored_text:
  assumes ren: "readlines (corpus_dir path is_train @ str ''/text'') = Inr (before @ line # after)"
    and sl: "split_line line = Inr (k, rest)"
    and last: "k \<notin> identifiers after"
    and ok: "init readlines kaldi_loader path is_train = Inr ds"
  shows "data_text ds k = Inr (unescape rest)"
proof -
  from ok ren obtain d1 where x: "load_text d1 (before @ line # after) = Inr (data ds)"
    by (auto simp: init_def Let_def split: sum.splits)
  then obtain da where a: "load_text d1 before = Inr da"
    and b: "load_text da (line # after) = Inr (data ds)"
    by (auto simp: load_text_append split: sum.splits)
  from b sl obtain fs where m: "map_of da k = Some fs"
    by (cases "map_of da k") auto
  define db where "db = AList.update k (AList.update (str ''text'') (unescape rest) fs) da"
  from b sl m have c: "load_text db after = Inr (data ds)"
    by (simp add: db_def)
  have "map_of (data ds) k = map_of db k"
    using load_text_other [OF c last] .
  also have "\<dots> = Some (AList.update (str ''text'') (unescape rest) fs)"
    by (simp add: db_def AList.update_conv')
  finally show ?thesis
    by (simp add: data_text_def dict_get_def AList.update_conv')
qed

lemma load_translated_append:
  "load_translated d (xs @ ys) =
     (case load_translated d xs of Inl e \<Rightarrow> Inl e | Inr d' \<Rightarrow> load_translated d' ys)"
  by (induction xs arbitrary: d) (auto split: sum.splits)

lemma load_translated_other:
  "load_translated d lines = Inr d' \<Longrightarrow> k \<notin> identifiers lines \<Longrightarrow> map_of d' k = map_of d k"
proof (induction lines arbitrary: d)
  case Nil
  then show ?case by simp
next
  case (Cons line lines)
  from Cons.prems obtain k' r where s: "split_line line = Inr (k', r)"
    by (cases "split_line line") auto
  with Cons.prems have l:
    "load_translated (AList.update k' [(str ''translated'', unescape r)] d) lines = Inr d'"
    by simp
  from Cons.prems(2) have "k \<noteq> k'" "k \<notin> identifiers lines"
    by (simp_all add: identifiers_Cons_Inr [OF s])
  with Cons.IH [OF l] show ?case
    by (simp add: AList.update_conv')
qed

lemma load_text_translated:
  "load_text d lines = Inr d' \<Longrightarrow> map_of d k = Some fs \<Longrightarrow>
   \<exists>fs'. map_of d' k = Some fs' \<and>
         map_of fs' (str ''translated'') = map_of fs (str ''translated'')"
proof (induction lines arbitrary: d fs)
  case Nil
  then show ?case by simp
next
  case (Cons line lines)
  from Cons.prems obtain k' r where s: "split_line line = Inr (k', r)"
    by (cases "split_line line") auto
  with Cons.prems obtain gs where m: "map_of d k' = Some gs"
    by (cases "map_of d k'") auto
  define d1 where "d1 = AList.update k' (AList.update (str ''text'') (unescape r) gs) d"
  from s m Cons.prems have l: "load_text d1 lines = Inr d'"
    by (simp add: d1_def)
  show ?case
  proof (cases "k = k'")
    case True
    with m Cons.prems(2) have "gs = fs" by simp
    then have "map_of d1 k = Some (AList.update (str ''text'') (unescape r) fs)"
      using True by (simp add: d1_def AList.update_conv')
    from Cons.IH [OF l this] show ?thesis
      using text_not_translated by (simp add: AList.update_conv')
  next
    case False
    then have "map_of d1 k = Some fs"
      using Cons.prems(2) by (simp add: d1_def AList.update_conv')
    from Cons.IH [OF l this] show ?thesis .
  qed
qed

lemma stored_translated:
  assumes rde: "readlines (corpus_dir path is_train @ str ''/text.tc.de'') =
                  Inr (before @ line # after)"
    and sl: "split_line line = Inr (k, rest)"
    and last: "k \<notin> identifiers after"
    and ok: "init readlines kaldi_loader path is_train = Inr ds"
  shows "data_translated ds k = Inr (unescape rest)"
proof -
  from ok rde obtain d1 lines_en where
    t: "load_translated [] (before @ line # after) = Inr d1" and
    x: "load_text d1 lines_en = Inr (data ds)"
    by (auto simp: init_def Let_def split: sum.splits)
  from t obtain da where a: "load_translated [] before = Inr da"
    and b: "load_translated da (line # after) = Inr d1"
    by (auto simp: load_translated_append split: sum.splits)
  define db where "db = AList.update k [(str ''translated'', unescape rest)] da"
  from b sl have c: "load_translated db after = Inr d1"
    by (simp add: db_def)
  have "map_of d1 k = map_of db k"
    using load_translated_other [OF c last] .
  also have "\<dots> = Some [(str ''translated'', unescape rest)]"
    by (simp add: db_def AList.update_conv')
  finally have "map_of d1 k = Some [(str ''translated'', unescape rest)]" .
  from load_text_translated [OF x this] show ?thesis
    by (auto simp: data_translated_def dict_get_def)
qed

lemma getitem_of_key:
  assumes "list_get (keys self) idx = Inr k"
    and "data_text self k = Inr t"
    and "data_translated self k = Inr tr"
  shows "fst (getitem lookup astype self idx) =
           (case fst (lookup (loader self) k) of
              Inl e \<Rightarrow> Inl e
            | Inr w \<Rightarrow> Inr \<lparr>speech' = astype w, text' = t, translated' = tr\<rparr>)"
proof -
  from assms(2) obtain fs where d: "dict_get (data self) k = Inr fs"
    and t: "dict_get fs (str ''text'') = Inr t"
    by (auto simp: data_text_def split: sum.splits)
  from assms(3) d have tr: "dict_get fs (str ''translated'') = Inr tr"
    by (auto simp: data_translated_def split: sum.splits)
  obtain res l where lk: "lookup (loader self) k = (res, l)"
    by (cases "lookup (loader self) k") auto
  show ?thesis
    by (cases res) (simp_all add: getitem_def assms(1) lk d t tr)
qed

subsection \<open>Lines of the shape identifier, whitespace, text\<close>

lemma dropWhile_blank_prefix:
  assumes "blank pre" and "s \<noteq> []" and "\<not> isspace (hd s)"
  shows "dropWhile isspace (pre @ s) = s"
proof -
  have "dropWhile isspace (pre @ s) = dropWhile isspace s"
    using assms(1) by (intro dropWhile_append2) (simp add: blank_def list_all_iff)
  also have "\<dots> = s"
    using assms(2,3) by (cases s) simp_all
  finally show ?thesis .
qed

lemma strip_blank:
  assumes "blank pre" and "blank post" and "s \<noteq> []"
    and "\<not> isspace (hd s)" and "\<not> isspace (last s)"
  shows "strip (pre @ s @ post) = s"
proof -
  have 1: "dropWhile isspace (pre @ s @ post) = s @ post"
    using assms(1,3,4) by (intro dropWhile_blank_prefix) simp_all
  have bp: "blank (rev post)"
    using assms(2) by (simp add: blank_def list_all_iff)
  have 2: "dropWhile isspace (rev post @ rev s) = rev s"
    using bp assms(3,5) by (intro dropWhile_blank_prefix) (simp_all add: hd_rev)
  show ?thesis
    by (simp add: strip_def 1 2)
qed

lemma split_line_fields:
  assumes k: "is_identifier k" and ws: "ws \<noteq> []" "blank ws" and r: "is_text r"
    and pre: "blank pre" and post: "blank post"
  shows "split_line (pre @ k @ ws @ r @ post) = Inr (k, r)"
proof -
  have kne: "k \<noteq> []" and knsp: "\<And>x. x \<in> set k \<Longrightarrow> \<not> isspace x"
    using k by (simp_all add: is_identifier_def list_all_iff)
  then have khd: "\<not> isspace (hd k)" by simp
  have whd: "isspace (hd ws)"
    using ws by (cases ws) (simp_all add: blank_def)
  have rne: "r \<noteq> []" and rhd: "\<not> isspace (hd r)" and rl: "\<not> isspace (last r)"
    using r by (simp_all add: is_text_def)
  let ?s = "k @ ws @ r"
  have sne: "?s \<noteq> []" using kne by simp
  have shd: "\<not> isspace (hd ?s)" using kne khd by simp
  have sl: "\<not> isspace (last ?s)" using rne rl by simp
  have "strip (pre @ ?s @ post) = ?s"
    using pre post sne shd sl by (rule strip_blank)
  then have st: "strip (pre @ k @ ws @ r @ post) = ?s" by simp
  have d0: "dropWhile isspace ?s = ?s"
    using sne shd by (cases ?s) simp_all
  have t1: "takeWhile (\<lambda>c. \<not> isspace c) ?s = k"
  proof -
    have "takeWhile (\<lambda>c. \<not> isspace c) (k @ (ws @ r)) =
            k @ takeWhile (\<lambda>c. \<not> isspace c) (ws @ r)"
      by (rule takeWhile_append2) (rule knsp)
    moreover have "takeWhile (\<lambda>c. \<not> isspace c) (ws @ r) = []"
      using ws(1) whd by (cases ws) simp_all
    ultimately show ?thesis by simp
  qed
  have d1: "dropWhile (\<lambda>c. \<not> isspace c) ?s = ws @ r"
  proof -
    have "dropWhile (\<lambda>c. \<not> isspace c) (k @ (ws @ r)) =
            dropWhile (\<lambda>c. \<not> isspace c) (ws @ r)"
      by (rule dropWhile_append2) (rule knsp)
    moreover have "dropWhile (\<lambda>c. \<not> isspace c) (ws @ r) = ws @ r"
      using ws(1) whd by (cases ws) simp_all
    ultimately show ?thesis by simp
  qed
  have d2: "dropWhile isspace (ws @ r) = r"
    using ws(2) rne rhd by (rule dropWhile_blank_prefix)
  have "split_whitespace (Suc 0) ?s = [k, r]"
    using sne rne
    by (simp only: split_whitespace.simps Let_def d0 t1 d1 d2 if_False)
  then show ?thesis
    by (simp only: split_line_def st One_nat_def list.case sum.case prod.case)
qed

subsection \<open>Accesses\<close>

lemma getitem_result:
  "fst (getitem lookup astype self idx) =
     (case list_get (keys self) idx of
        Inl e \<Rightarrow> Inl e
      | Inr k \<Rightarrow>
      (case fst (lookup (loader self) k) of
        Inl e \<Rightarrow> Inl e
      | Inr w \<Rightarrow>
      (case dict_get (data self) k of
        Inl e \<Rightarrow> Inl e
      | Inr fs \<Rightarrow>
      (case dict_get fs (str ''text'') of
        Inl e \<Rightarrow> Inl e
      | Inr t \<Rightarrow>
      (case dict_get fs (str ''translated'') of
        Inl e \<Rightarrow> Inl e
      | Inr tr \<Rightarrow> Inr \<lparr>speech' = astype w, text' = t, translated' = tr\<rparr>)))))"
  by (simp add: getitem_def split: sum.splits prod.splits)



subsection \<open>The claims\<close>

text \<open>
  Claim C8, amended. Let a line \<open><identifier><whitespace><text>\<close>, possibly with
  whitespace around it, be the last line of \<open>text.tc.de\<close> with its identifier, let a
  line of the same shape be the last line of \<open>text\<close> with this identifier, and let
  \<open>__init__\<close> accept the files. Then the identifier is a key; the identifier is what
  precedes the first whitespace and the text is the remainder; \<open>translated\<close> holds
  the text of the first line and \<open>text\<close> the text of the second, each after the
  escape decoding, which keeps a text with no \<open>&\<close> after a space verbatim; and
  \<open>__getitem__\<close> at an index of the key returns the record with these two entries
  and the converted waveform of the key, or raises the error of the audio loader.
  The witness is the instance of the lines \<open>utt1 Er ist spaet.\<close> (its \<open>ae\<close> the single
  letter a-umlaut, code point 228) and \<open>utt1 he is late\<close> among other lines.
\<close>

theorem record_of_last_lines:
  assumes rde: "readlines (corpus_dir path is_train @ str ''/text.tc.de'') =
                  Inr (before_de @ (pre1 @ k @ ws1 @ r_de @ post1) # after_de)"
    and ren: "readlines (corpus_dir path is_train @ str ''/text'') =
                  Inr (before_en @ (pre2 @ k @ ws2 @ r_en @ post2) # after_en)"
    and k: "is_identifier k"
    and de: "blank pre1 \<and> ws1 \<noteq> [] \<and> blank ws1 \<and> is_text r_de \<and> blank post1"
    and en: "blank pre2 \<and> ws2 \<noteq> [] \<and> blank ws2 \<and> is_text r_en \<and> blank post2"
    and last: "k \<notin> identifiers after_de \<and> k \<notin> identifiers after_en"
    and ok: "init readlines kaldi_loader path is_train = Inr ds"
  shows "k \<in> set (keys ds) \<and>
         data_translated ds k = Inr (unescape r_de) \<and>
         data_text ds k = Inr (unescape r_en) \<and>
         (\<forall>idx. list_get (keys ds) idx = Inr k \<longrightarrow>
            fst (getitem lookup astype ds idx) =
              (case fst (lookup (loader ds) k) of
                 Inl e \<Rightarrow> Inl e
               | Inr w \<Rightarrow>
                   Inr \<lparr>speech' = astype w, text' = unescape r_en,
                        translated' = unescape r_de\<rparr>)) \<and>
         (\<not> contains [32, 38] r_de \<longrightarrow> unescape r_de = r_de) \<and>
         (\<not> contains [32, 38] r_en \<longrightarrow> unescape r_en = r_en)"
proof -
  have sde: "split_line (pre1 @ k @ ws1 @ r_de @ post1) = Inr (k, r_de)"
    using k de by (intro split_line_fields) simp_all
  have sen: "split_line (pre2 @ k @ ws2 @ r_en @ post2) = Inr (k, r_en)"
    using k en by (intro split_line_fields) simp_all
  have tr: "data_translated ds k = Inr (unescape r_de)"
    using rde sde _ ok by (rule stored_translated) (simp add: last)
  have tx: "data_text ds k = Inr (unescape r_en)"
    using ren sen _ ok by (rule stored_text) (simp add: last)
  have kin: "k \<in> set (keys ds)"
  proof -
    from tx obtain fs where "dict_get (data ds) k = Inr fs"
      by (auto simp: data_text_def split: sum.splits)
    then have "map_of (data ds) k = Some fs"
      by (auto simp: dict_get_def split: option.splits)
    then have "k \<in> set (map fst (data ds))"
      by (metis map_of_eq_None_iff option.distinct(1) set_map)
    moreover have "keys ds = map fst (data ds)"
      using ok by (auto simp: init_def Let_def split: sum.splits)
    ultimately show ?thesis by simp
  qed
  have g: "fst (getitem lookup astype ds idx) =
              (case fst (lookup (loader ds) k) of
                 Inl e \<Rightarrow> Inl e
               | Inr w \<Rightarrow>
                   Inr \<lparr>speech' = astype w, text' = unescape r_en,
                        translated' = unescape r_de\<rparr>)"
    if "list_get (keys ds) idx = Inr k" for idx
    using that tx tr by (rule getitem_of_key)
  show ?thesis
    using kin tr tx g unescape_no_space_amp by blast
qed

theorem record_of_last_lines_witness:
  "init (corpus_files (corpus_dir (str ''dump/raw'') True)
           [str ''utt0 Hallo'' @ [10], str ''utt1 alt'' @ [10],
            str ''utt1 Er ist sp'' @ [228] @ str ''t.'' @ [10], str ''utt2 Danke'' @ [10]]
           [str ''utt0 hello'' @ [10], str ''utt1 he is late'' @ [10],
            str ''utt2 thanks'' @ [10]])
        (audio_index [(str ''utt0'', 5 :: nat), (str ''utt1'', 7), (str ''utt2'', 9)])
        (str ''dump/raw'') True =
     Inr \<lparr>data_path = str ''dump/raw'',
          data = [(str ''utt0'', [(str ''translated'', str ''Hallo''),
                                  (str ''text'', str ''hello'')]),
                  (str ''utt1'', [(str ''translated'', str ''Er ist sp'' @ [228] @ str ''t.''),
                                  (str ''text'', str ''he is late'')]),
                  (str ''utt2'', [(str ''translated'', str ''Danke''),
                                  (str ''text'', str ''thanks'')])],
          keys = [str ''utt0'', str ''utt1'', str ''utt2''],
          loader = [(str ''utt0'', 5), (str ''utt1'', 7), (str ''utt2'', 9)]\<rparr> \<and>
   fst (getitem audio_lookup real
          \<lparr>data_path = str ''dump/raw'',
           data = [(str ''utt0'', [(str ''translated'', str ''Hallo''),
                                   (str ''text'', str ''hello'')]),
                   (str ''utt1'', [(str ''translated'', str ''Er ist sp'' @ [228] @ str ''t.''),
                                   (str ''text'', str ''he is late'')]),
                   (str ''utt2'', [(str ''translated'', str ''Danke''),
                                   (str ''text'', str ''thanks'')])],
           keys = [str ''utt0'', str ''utt1'', str ''utt2''],
           loader = [(str ''utt0'', 5 :: nat), (str ''utt1'', 7), (str ''utt2'', 9)]\<rparr> 1) =
     Inr \<lparr>speech' = 7, text' = str ''he is late'',
          translated' = str ''Er ist sp'' @ [228] @ str ''t.''\<rparr>"
proof -
  let ?dir = "corpus_dir (str ''dump/raw'') True"
  let ?rde = "str ''Er ist sp'' @ [228] @ str ''t.''"
  let ?ren = "str ''he is late''"
  let ?bde = "[str ''utt0 Hallo'' @ [10], str ''utt1 alt'' @ [10]]"
  let ?ade = "[str ''utt2 Danke'' @ [10]]"
  let ?ben = "[str ''utt0 hello'' @ [10]]"
  let ?aen = "[str ''utt2 thanks'' @ [10]]"
  let ?de = "[str ''utt0 Hallo'' @ [10], str ''utt1 alt'' @ [10],
            str ''utt1 Er ist sp'' @ [228] @ str ''t.'' @ [10], str ''utt2 Danke'' @ [10]]"
  let ?en = "[str ''utt0 hello'' @ [10], str ''utt1 he is late'' @ [10],
            str ''utt2 thanks'' @ [10]]"
  let ?au = "[(str ''utt0'', 5 :: nat), (str ''utt1'', 7), (str ''utt2'', 9)]"
  let ?ds = "\<lparr>data_path = str ''dump/raw'',
           data = [(str ''utt0'', [(str ''translated'', str ''Hallo''),
                                   (str ''text'', str ''hello'')]),
                   (str ''utt1'', [(str ''translated'', str ''Er ist sp'' @ [228] @ str ''t.''),
                                   (str ''text'', str ''he is late'')]),
                   (str ''utt2'', [(str ''translated'', str ''Danke''),
                                   (str ''text'', str ''thanks'')])],
           keys = [str ''utt0'', str ''utt1'', str ''utt2''],
           loader = ?au\<rparr>"
  have ini: "init (corpus_files ?dir ?de ?en) (audio_index ?au) (str ''dump/raw'') True = Inr ?ds"
    by (simp add: init_corpus_files split_line_def strip_def str_def isspace_def unescape_def)
  have rde: "corpus_files ?dir ?de ?en (?dir @ str ''/text.tc.de'') =
               Inr (?bde @ ([] @ str ''utt1'' @ str '' '' @ ?rde @ [10]) # ?ade)"
    by (simp add: corpus_files_def str_def)
  have ren: "corpus_files ?dir ?de ?en (?dir @ str ''/text'') =
               Inr (?ben @ ([] @ str ''utt1'' @ str '' '' @ ?ren @ [10]) # ?aen)"
    using text_names_differ by (simp add: corpus_files_def) (simp add: str_def)
  have k: "is_identifier (str ''utt1'')"
    by (simp add: is_identifier_def str_def isspace_def)
  have de: "blank [] \<and> str '' '' \<noteq> [] \<and> blank (str '' '') \<and> is_text ?rde \<and> blank [10]"
    by (simp add: blank_def is_text_def str_def isspace_def)
  have en: "blank [] \<and> str '' '' \<noteq> [] \<and> blank (str '' '') \<and> is_text ?ren \<and> blank [10]"
    by (simp add: blank_def is_text_def str_def isspace_def)
  have last: "str ''utt1'' \<notin> identifiers ?ade \<and> str ''utt1'' \<notin> identifiers ?aen"
    by (simp add: identifiers_def split_def strip_def str_def isspace_def)
  have idx: "list_get (keys ?ds) 1 = Inr (str ''utt1'')"
    by (simp add: list_get_def)
  have look: "fst (audio_lookup (loader ?ds) (str ''utt1'')) = Inr 7"
    by (simp add: audio_lookup_def dict_get_def str_def)
  have ver: "\<not> contains [32, 38] ?rde" "\<not> contains [32, 38] ?ren"
    by (simp_all add: str_def)
  note t = record_of_last_lines [OF rde ren k de en last ini, of audio_lookup real]
  from t ver have u: "unescape ?rde = ?rde" "unescape ?ren = ?ren"
    by blast+
  from t idx have "fst (getitem audio_lookup real ?ds 1) =
      (case fst (audio_lookup (loader ?ds) (str ''utt1'')) of
         Inl e \<Rightarrow> Inl e
       | Inr w \<Rightarrow> Inr \<lparr>speech' = real w, text' = unescape ?ren, translated' = unescape ?rde\<rparr>)"
    by blast
  then have "fst (getitem audio_lookup real ?ds 1) =
      Inr \<lparr>speech' = 7, text' = ?ren, translated' = ?rde\<rparr>"
    by (simp only: look u sum.case of_nat_numeral)
  with ini show ?thesis by blast
qed

text \<open>
  Claim C8 as stated fails: a transcript file that contains the line
  \<open>utt1 he is late\<close> and, after it, another line for \<open>utt1\<close> yields a record whose
  \<open>text\<close> is that of the later line.
\<close>

theorem record_of_line_counterexample:
  "init (corpus_files (corpus_dir (str ''dump/raw'') True)
           [str ''utt1 Er ist sp'' @ [228] @ str ''t.'' @ [10]]
           [str ''utt1 he is late'' @ [10], str ''utt1 he was early'' @ [10]])
        (audio_index [(str ''utt1'', 7 :: nat)]) (str ''dump/raw'') True =
     Inr \<lparr>data_path = str ''dump/raw'',
          data = [(str ''utt1'', [(str ''translated'', str ''Er ist sp'' @ [228] @ str ''t.''),
                                  (str ''text'', str ''he was early'')])],
          keys = [str ''utt1''],
          loader = [(str ''utt1'', 7)]\<rparr> \<and>
   fst (getitem audio_lookup real
          \<lparr>data_path = str ''dump/raw'',
           data = [(str ''utt1'', [(str ''translated'', str ''Er ist sp'' @ [228] @ str ''t.''),
                                   (str ''text'', str ''he was early'')])],
           keys = [str ''utt1''],
           loader = [(str ''utt1'', 7 :: nat)]\<rparr> 0) =
     Inr \<lparr>speech' = 7, text' = str ''he was early'',
          translated' = str ''Er ist sp'' @ [228] @ str ''t.''\<rparr> \<and>
   str ''he was early'' \<noteq> str ''he is late''"
proof -
  have a: "init (corpus_files (corpus_dir (str ''dump/raw'') True)
           [str ''utt1 Er ist sp'' @ [228] @ str ''t.'' @ [10]]
           [str ''utt1 he is late'' @ [10], str ''utt1 he was early'' @ [10]])
        (audio_index [(str ''utt1'', 7 :: nat)]) (str ''dump/raw'') True =
     Inr \<lparr>data_path = str ''dump/raw'',
          data = [(str ''utt1'', [(str ''translated'', str ''Er ist sp'' @ [228] @ str ''t.''),
                                  (str ''text'', str ''he was early'')])],
          keys = [str ''utt1''],
          loader = [(str ''utt1'', 7)]\<rparr>"
    by (simp add: init_corpus_files split_line_def strip_def str_def isspace_def unescape_def)
  have b: "fst (getitem audio_lookup real
          \<lparr>data_path = str ''dump/raw'',
           data = [(str ''utt1'', [(str ''translated'', str ''Er ist sp'' @ [228] @ str ''t.''),
                                   (str ''text'', str ''he was early'')])],
           keys = [str ''utt1''],
           loader = [(str ''utt1'', 7 :: nat)]\<rparr> 0) =
     Inr \<lparr>speech' = 7, text' = str ''he was early'',
          translated' = str ''Er ist sp'' @ [228] @ str ''t.''\<rparr>"
    by (simp add: getitem_def list_get_def audio_lookup_def dict_get_def str_def)
  have c: "str ''he was early'' \<noteq> str ''he is late''"
    by (simp add: str_def)
  show ?thesis using a b c by blast
qed




text \<open>
  Claim C5. When a line of the translation file or of the transcript file has, after
  stripping, fewer than two whitespace-separated fields (an empty or blank line
  included), \<open>__init__\<close> raises: no dataset is built.
\<close>

theorem malformed_line_fails:
  assumes "length (split (strip line)) < 2"
    and "readlines (corpus_dir path is_train @ str ''/text.tc.de'') = Inr lines_de \<and>
           line \<in> set lines_de \<or>
         readlines (corpus_dir path is_train @ str ''/text'') = Inr lines_en \<and>
           line \<in> set lines_en"
  shows "\<exists>e. init readlines kaldi_loader path is_train = Inl e"
proof -
  have bad: "split_line line = Inl ValueError"
    using assms(1) by (simp add: split_line_ValueError_iff)
  from assms(2) show ?thesis
  proof
    assume a: "readlines (corpus_dir path is_train @ str ''/text.tc.de'') = Inr lines_de \<and>
               line \<in> set lines_de"
    then have "load_translated [] lines_de = Inl ValueError"
      using bad load_translated_malformed by blast
    with a show ?thesis by (simp add: init_def)
  next
    assume a: "readlines (corpus_dir path is_train @ str ''/text'') = Inr lines_en \<and>
               line \<in> set lines_en"
    then have "\<And>d. \<exists>e. load_text d lines_en = Inl e"
      using bad load_text_malformed by blast
    then have "\<And>d. \<not> (\<exists>d'. load_text d lines_en = Inr d')"
      by (metis sum.distinct(1))
    with a have "\<not> (\<exists>ds. init readlines kaldi_loader path is_train = Inr ds)"
      by (auto simp: init_def Let_def split: sum.splits)
    then show ?thesis
      by (cases "init readlines kaldi_loader path is_train") auto
  qed
qed

theorem malformed_line_fails_witness:
  "length (split (strip (str ''utt2'' @ [10]))) < 2 \<and>
   isl (init (corpus_files (corpus_dir (str ''dump/raw'') True)
                [str ''utt1 Guten Tag'' @ [10], str ''utt2 Danke'' @ [10]]
                [str ''utt1 good day'' @ [10], str ''utt2'' @ [10]])
             (audio_index [(str ''utt1'', 1 :: nat)]) (str ''dump/raw'') True)"
proof -
  have h: "length (split (strip (str ''utt2'' @ [10]))) < 2"
    by (simp add: split_def strip_def str_def isspace_def)
  have f: "corpus_files (corpus_dir (str ''dump/raw'') True)
             [str ''utt1 Guten Tag'' @ [10], str ''utt2 Danke'' @ [10]]
             [str ''utt1 good day'' @ [10], str ''utt2'' @ [10]]
             (corpus_dir (str ''dump/raw'') True @ str ''/text'') =
           Inr [str ''utt1 good day'' @ [10], str ''utt2'' @ [10]]"
    using text_names_differ by (simp add: corpus_files_def)
  show ?thesis
    using h malformed_line_fails [OF h, of
        "corpus_files (corpus_dir (str ''dump/raw'') True)
                [str ''utt1 Guten Tag'' @ [10], str ''utt2 Danke'' @ [10]]
                [str ''utt1 good day'' @ [10], str ''utt2'' @ [10]]"
        "str ''dump/raw''" True _ "[str ''utt1 good day'' @ [10], str ''utt2'' @ [10]]"
        "audio_index [(str ''utt1'', 1 :: nat)]"] f
    by auto
qed

text \<open>
  Claim C2, amended. For files that \<open>__init__\<close> accepts, the length of the dataset is
  the number of distinct identifiers of the translation file \<open>text.tc.de\<close>, and every
  identifier of the transcript file \<open>text\<close> is one of them.
\<close>

theorem len_counts_translation_ids:
  assumes "readlines (corpus_dir path is_train @ str ''/text.tc.de'') = Inr lines_de"
    and "readlines (corpus_dir path is_train @ str ''/text'') = Inr lines_en"
    and "init readlines kaldi_loader path is_train = Inr ds"
  shows "fst (len ds) = card (identifiers lines_de) \<and>
         identifiers lines_en \<subseteq> identifiers lines_de"
proof -
  from init_Inr_data [OF assms] obtain d1 where
    t: "load_translated [] lines_de = Inr d1" and
    x: "load_text d1 lines_en = Inr (data ds)" and
    k: "keys ds = map fst (data ds)"
    by blast
  have s1: "set (map fst d1) = identifiers lines_de"
    using load_translated_keys [OF t] by simp
  have d1: "distinct (map fst d1)"
    using load_translated_distinct [OF t] by simp
  have same: "map fst (data ds) = map fst d1" and sub: "identifiers lines_en \<subseteq> set (map fst d1)"
    using load_text_keys [OF x] by simp_all
  have "fst (len ds) = length (map fst d1)"
    by (simp add: len_def k same)
  also have "\<dots> = card (set (map fst d1))"
    by (rule distinct_card [OF d1, symmetric])
  also have "\<dots> = card (identifiers lines_de)"
    by (simp only: s1)
  finally show ?thesis
    using sub by (simp only: s1 simp_thms)
qed

theorem len_counts_translation_ids_witness:
  "fst (len \<lparr>data_path = str ''dump/raw'',
          data = [(str ''utt1'', [(str ''translated'', str ''Guten Tag''),
                                  (str ''text'', str ''good day'')]),
                  (str ''utt2'', [(str ''translated'', str ''Danke'')])],
          keys = [str ''utt1'', str ''utt2''],
          loader = [(str ''utt1'', 1 :: nat), (str ''utt2'', 2)]\<rparr>) =
     card (identifiers [str ''utt1 Guten Tag'' @ [10], str ''utt2 Danke'' @ [10]]) \<and>
   identifiers [str ''utt1 good day'' @ [10]] \<subseteq>
     identifiers [str ''utt1 Guten Tag'' @ [10], str ''utt2 Danke'' @ [10]]"
proof -
  have a: "init (corpus_files (corpus_dir (str ''dump/raw'') True)
           [str ''utt1 Guten Tag'' @ [10], str ''utt2 Danke'' @ [10]]
           [str ''utt1 good day'' @ [10]])
        (audio_index [(str ''utt1'', 1 :: nat), (str ''utt2'', 2)]) (str ''dump/raw'') True =
     Inr \<lparr>data_path = str ''dump/raw'',
          data = [(str ''utt1'', [(str ''translated'', str ''Guten Tag''),
                                  (str ''text'', str ''good day'')]),
                  (str ''utt2'', [(str ''translated'', str ''Danke'')])],
          keys = [str ''utt1'', str ''utt2''],
          loader = [(str ''utt1'', 1), (str ''utt2'', 2)]\<rparr>"
    by (simp add: init_corpus_files split_line_def strip_def str_def isspace_def unescape_def)
  have f1: "corpus_files (corpus_dir (str ''dump/raw'') True)
           [str ''utt1 Guten Tag'' @ [10], str ''utt2 Danke'' @ [10]]
           [str ''utt1 good day'' @ [10]] (corpus_dir (str ''dump/raw'') True @ str ''/text.tc.de'')
          = Inr [str ''utt1 Guten Tag'' @ [10], str ''utt2 Danke'' @ [10]]"
    by (simp add: corpus_files_def)
  have f2: "corpus_files (corpus_dir (str ''dump/raw'') True)
           [str ''utt1 Guten Tag'' @ [10], str ''utt2 Danke'' @ [10]]
           [str ''utt1 good day'' @ [10]] (corpus_dir (str ''dump/raw'') True @ str ''/text'')
          = Inr [str ''utt1 good day'' @ [10]]"
    using text_names_differ by (simp add: corpus_files_def)
  show ?thesis
    by (rule len_counts_translation_ids [OF f1 f2 a])
qed

text \<open>
  Claim C2 as stated fails: with two identifiers in the translation file and one of
  them in the transcript file, construction succeeds and the length is 2, while the
  transcript file has 1 identifier.
\<close>

theorem len_counts_transcript_ids_counterexample:
  "init (corpus_files (corpus_dir (str ''dump/raw'') True)
           [str ''utt1 Guten Tag'' @ [10], str ''utt2 Danke'' @ [10]]
           [str ''utt1 good day'' @ [10]])
        (audio_index [(str ''utt1'', 1 :: nat), (str ''utt2'', 2)]) (str ''dump/raw'') True =
     Inr \<lparr>data_path = str ''dump/raw'',
          data = [(str ''utt1'', [(str ''translated'', str ''Guten Tag''),
                                  (str ''text'', str ''good day'')]),
                  (str ''utt2'', [(str ''translated'', str ''Danke'')])],
          keys = [str ''utt1'', str ''utt2''],
          loader = [(str ''utt1'', 1), (str ''utt2'', 2)]\<rparr> \<and>
   fst (len \<lparr>data_path = str ''dump/raw'',
          data = [(str ''utt1'', [(str ''translated'', str ''Guten Tag''),
                                  (str ''text'', str ''good day'')]),
                  (str ''utt2'', [(str ''translated'', str ''Danke'')])],
          keys = [str ''utt1'', str ''utt2''],
          loader = [(str ''utt1'', 1 :: nat), (str ''utt2'', 2)]\<rparr>) = 2 \<and>
   card (identifiers [str ''utt1 good day'' @ [10]]) = 1"
proof -
  have a: "init (corpus_files (corpus_dir (str ''dump/raw'') True)
           [str ''utt1 Guten Tag'' @ [10], str ''utt2 Danke'' @ [10]]
           [str ''utt1 good day'' @ [10]])
        (audio_index [(str ''utt1'', 1 :: nat), (str ''utt2'', 2)]) (str ''dump/raw'') True =
     Inr \<lparr>data_path = str ''dump/raw'',
          data = [(str ''utt1'', [(str ''translated'', str ''Guten Tag''),
                                  (str ''text'', str ''good day'')]),
                  (str ''utt2'', [(str ''translated'', str ''Danke'')])],
          keys = [str ''utt1'', str ''utt2''],
          loader = [(str ''utt1'', 1), (str ''utt2'', 2)]\<rparr>"
    by (simp add: init_corpus_files split_line_def strip_def str_def isspace_def unescape_def)
  have b: "card (identifiers [str ''utt1 good day'' @ [10]]) = 1"
    by (simp add: identifiers_def split_def strip_def str_def isspace_def)
  show ?thesis
    using a b by (simp add: len_def)
qed

text \<open>
  Claim C4, amended. An identifier of the transcript file that the translation file
  lacks makes \<open>__init__\<close> itself fail: with KeyError for such an identifier, or with
  ValueError when a malformed line comes first. An identifier of the translation file
  that the transcript file lacks does not stop construction: when the lines are
  well-formed, the transcript identifiers are among the translation identifiers and
  the audio loader is built, \<open>__init__\<close> succeeds, the identifier is a key, and
  \<open>__getitem__\<close> at an index of that key raises: the audio loader's error if the
  loader has none for the key, else KeyError for \<open>text\<close>.
\<close>

theorem missing_identifier:
  assumes rde: "readlines (corpus_dir path is_train @ str ''/text.tc.de'') = Inr lines_de"
    and ren: "readlines (corpus_dir path is_train @ str ''/text'') = Inr lines_en"
  shows "(k \<in> identifiers lines_en \<and> k \<notin> identifiers lines_de \<longrightarrow>
            init readlines kaldi_loader path is_train = Inl ValueError \<or>
            (\<exists>j. j \<in> identifiers lines_en \<and> j \<notin> identifiers lines_de \<and>
                 init readlines kaldi_loader path is_train = Inl (KeyError j))) \<and>
         (k \<in> identifiers lines_de \<and> k \<notin> identifiers lines_en \<and>
          (\<forall>line\<in>set lines_de \<union> set lines_en. 2 \<le> length (split (strip line))) \<and>
          identifiers lines_en \<subseteq> identifiers lines_de \<and>
          kaldi_loader (corpus_dir path is_train @ str ''/wav.scp'') = Inr l \<longrightarrow>
            (\<exists>ds. init readlines kaldi_loader path is_train = Inr ds \<and> k \<in> set (keys ds) \<and>
                 (\<forall>idx. list_get (keys ds) idx = Inr k \<longrightarrow>
                    fst (getitem lookup astype ds idx) =
                      (case fst (lookup l k) of Inl e \<Rightarrow> Inl e | Inr w \<Rightarrow> Inl (KeyError (str ''text''))))))"
proof (intro conjI impI)
  assume a: "k \<in> identifiers lines_en \<and> k \<notin> identifiers lines_de"
  show "init readlines kaldi_loader path is_train = Inl ValueError \<or>
        (\<exists>j. j \<in> identifiers lines_en \<and> j \<notin> identifiers lines_de \<and>
             init readlines kaldi_loader path is_train = Inl (KeyError j))"
  proof (cases "load_translated [] lines_de")
    case (Inl e)
    then have "e = ValueError" by (rule load_translated_error)
    with Inl rde show ?thesis by (simp add: init_def)
  next
    case (Inr d1)
    have s1: "set (map fst d1) = identifiers lines_de"
      using load_translated_keys [OF Inr] by simp
    show ?thesis
    proof (cases "load_text d1 lines_en")
      case (Inl e)
      have i: "init readlines kaldi_loader path is_train = Inl e"
        using rde ren Inr Inl by (simp add: init_def)
      from load_text_error [OF Inl] show ?thesis
        unfolding s1 i by blast
    next
      case (Inr d2)
      from load_text_keys [OF Inr] have "identifiers lines_en \<subseteq> identifiers lines_de"
        unfolding s1 by simp
      with a show ?thesis by blast
    qed
  qed
next
  assume b: "k \<in> identifiers lines_de \<and> k \<notin> identifiers lines_en \<and>
          (\<forall>line\<in>set lines_de \<union> set lines_en. 2 \<le> length (split (strip line))) \<and>
          identifiers lines_en \<subseteq> identifiers lines_de \<and>
          kaldi_loader (corpus_dir path is_train @ str ''/wav.scp'') = Inr l"
  then have wde: "\<forall>line\<in>set lines_de. split_line line \<noteq> Inl ValueError"
    and wen: "\<forall>line\<in>set lines_en. split_line line \<noteq> Inl ValueError"
    by (simp_all add: wellformed_iff)
  from load_translated_ok [OF wde] obtain d1 where t: "load_translated [] lines_de = Inr d1"
    by blast
  have s1: "set (map fst d1) = identifiers lines_de"
    using load_translated_keys [OF t] by simp
  from b have "identifiers lines_en \<subseteq> set (map fst d1)"
    unfolding s1 by simp
  from load_text_ok [OF wen this] obtain d2 where x: "load_text d1 lines_en = Inr d2"
    by blast
  define ds where "ds = \<lparr>data_path = path, data = d2, keys = map fst d2, loader = l\<rparr>"
  have i: "init readlines kaldi_loader path is_train = Inr ds"
    using rde ren t x b by (simp add: init_def ds_def)
  have same: "map fst d2 = map fst d1"
    using load_text_keys [OF x] by simp
  from b have kin: "k \<in> set (map fst d1)"
    unfolding s1 by simp
  then obtain fs where m1: "map_of d1 k = Some fs"
    by (metis map_of_eq_None_iff not_Some_eq set_map)
  have nt: "map_of fs (str ''text'') = None"
    using load_translated_no_text [OF t _ m1] by simp
  from b have "map_of d2 k = map_of d1 k"
    using load_text_other [OF x] by blast
  with m1 have m2: "map_of d2 k = Some fs" by simp
  have g: "fst (getitem lookup astype ds idx) =
             (case fst (lookup l k) of
                Inl e \<Rightarrow> Inl e
              | Inr w \<Rightarrow> Inl (KeyError (str ''text'')))"
    if "list_get (keys ds) idx = Inr k" for idx
    using that m2 nt by (simp add: getitem_result ds_def dict_get_def split: sum.splits)
  have "k \<in> set (keys ds)"
    using kin by (simp only: ds_def same dataset.simps)
  with i g show "\<exists>ds. init readlines kaldi_loader path is_train = Inr ds \<and> k \<in> set (keys ds) \<and>
                 (\<forall>idx. list_get (keys ds) idx = Inr k \<longrightarrow>
                    fst (getitem lookup astype ds idx) =
                      (case fst (lookup l k) of Inl e \<Rightarrow> Inl e | Inr w \<Rightarrow> Inl (KeyError (str ''text''))))"
    by blast
qed

theorem missing_identifier_witness:
  "(str ''utt2'' \<in> identifiers [str ''utt1 good day'' @ [10], str ''utt2 thanks'' @ [10]] \<and>
    str ''utt2'' \<notin> identifiers [str ''utt1 Guten Tag'' @ [10]] \<and>
    isl (init (corpus_files (corpus_dir (str ''dump/raw'') True)
                 [str ''utt1 Guten Tag'' @ [10]]
                 [str ''utt1 good day'' @ [10], str ''utt2 thanks'' @ [10]])
              (audio_index [(str ''utt1'', 1 :: nat), (str ''utt2'', 2)]) (str ''dump/raw'') True)) \<and>
   (str ''utt2'' \<in> identifiers [str ''utt1 Guten Tag'' @ [10], str ''utt2 Danke'' @ [10]] \<and>
    str ''utt2'' \<notin> identifiers [str ''utt1 good day'' @ [10]] \<and>
    fst (getitem audio_lookup real
           \<lparr>data_path = str ''dump/raw'',
            data = [(str ''utt1'', [(str ''translated'', str ''Guten Tag''),
                                    (str ''text'', str ''good day'')]),
                    (str ''utt2'', [(str ''translated'', str ''Danke'')])],
            keys = [str ''utt1'', str ''utt2''],
            loader = [(str ''utt1'', 1 :: nat), (str ''utt2'', 2)]\<rparr> 1) =
      Inl (KeyError (str ''text'')))"
proof -
  let ?dir = "corpus_dir (str ''dump/raw'') True"
  let ?deA = "[str ''utt1 Guten Tag'' @ [10]]"
  let ?enA = "[str ''utt1 good day'' @ [10], str ''utt2 thanks'' @ [10]]"
  let ?deB = "[str ''utt1 Guten Tag'' @ [10], str ''utt2 Danke'' @ [10]]"
  let ?enB = "[str ''utt1 good day'' @ [10]]"
  let ?au = "[(str ''utt1'', 1 :: nat), (str ''utt2'', 2)]"
  let ?ds = "\<lparr>data_path = str ''dump/raw'',
            data = [(str ''utt1'', [(str ''translated'', str ''Guten Tag''),
                                    (str ''text'', str ''good day'')]),
                    (str ''utt2'', [(str ''translated'', str ''Danke'')])],
            keys = [str ''utt1'', str ''utt2''],
            loader = ?au\<rparr>"
  have files: "corpus_files ?dir de en (?dir @ str ''/text.tc.de'') = Inr de"
    "corpus_files ?dir de en (?dir @ str ''/text'') = Inr en" for de en
    using text_names_differ by (simp_all add: corpus_files_def)
  have idA: "str ''utt2'' \<in> identifiers ?enA" "str ''utt2'' \<notin> identifiers ?deA"
    by (simp_all add: identifiers_def split_def strip_def str_def isspace_def)
  have idB: "str ''utt2'' \<in> identifiers ?deB" "str ''utt2'' \<notin> identifiers ?enB"
    "identifiers ?enB \<subseteq> identifiers ?deB"
    by (simp_all add: identifiers_def split_def strip_def str_def isspace_def)
  have wfB: "\<forall>line\<in>set ?deB \<union> set ?enB. 2 \<le> length (split (strip line))"
    by (simp add: split_def strip_def str_def isspace_def)
  have ldB: "audio_index ?au (?dir @ str ''/wav.scp'') = Inr ?au"
    by (simp add: audio_index_def)
  have initB: "init (corpus_files ?dir ?deB ?enB) (audio_index ?au) (str ''dump/raw'') True = Inr ?ds"
    by (simp add: init_corpus_files split_line_def strip_def str_def isspace_def unescape_def)
  have getB: "list_get (keys ?ds) 1 = Inr (str ''utt2'')"
    by (simp add: list_get_def)
  have lookB: "fst (audio_lookup ?au (str ''utt2'')) = Inr 2"
    by (simp add: audio_lookup_def dict_get_def str_def)
  have A: "isl (init (corpus_files ?dir ?deA ?enA) (audio_index ?au) (str ''dump/raw'') True)"
    using missing_identifier [where lines_de = ?deA and lines_en = ?enA and k = "str ''utt2''"
        and kaldi_loader = "audio_index ?au", OF files] idA
    by auto
  have B: "fst (getitem audio_lookup real ?ds 1) = Inl (KeyError (str ''text''))"
    using missing_identifier [where lines_de = ?deB and lines_en = ?enB and k = "str ''utt2''"
        and kaldi_loader = "audio_index ?au" and l = ?au and lookup = audio_lookup
        and astype = real,
        OF files] idB wfB ldB initB getB lookB
    by auto
  show ?thesis
    using A B idA idB by blast
qed

text \<open>
  Claim C4 as stated fails: with \<open>utt2\<close> in the transcript file only, construction
  does not succeed; \<open>__init__\<close> raises KeyError for \<open>utt2\<close>.
\<close>

theorem missing_transcript_id_counterexample:
  "init (corpus_files (corpus_dir (str ''dump/raw'') True)
           [str ''utt1 Guten Tag'' @ [10]]
           [str ''utt1 good day'' @ [10], str ''utt2 thanks'' @ [10]])
        (audio_index [(str ''utt1'', 1 :: nat), (str ''utt2'', 2)]) (str ''dump/raw'') True =
     Inl (KeyError (str ''utt2''))"
  by (simp add: init_corpus_files split_line_def strip_def str_def isspace_def unescape_def)

text \<open>
  Claim C1, amended. For both files, what is stored for an identifier is the text
  part of the last line with this identifier after the chain of replacements:
  \<open>translated\<close> from \<open>text.tc.de\<close>, \<open>text\<close> from \<open>text\<close>. The chain decodes an escape
  exactly together with a space before it, wherever it stands: the decoding of
  \<open>a + " &apos;" + b\<close> is the decoding of \<open>a\<close>, then \<open>"'"\<close>, then the decoding of
  \<open>b\<close>; likewise \<open>" &quot;"\<close> gives \<open>'"'\<close> and \<open>" &amp;"\<close> gives \<open>"&"\<close>; and a text in
  which no \<open>&\<close> follows a space is left as it is.
\<close>

theorem escape_decoded_after_space:
  assumes rde: "readlines (corpus_dir path is_train @ str ''/text.tc.de'') =
                  Inr (before_de @ line_de # after_de)"
    and sde: "split_line line_de = Inr (k_de, r_de)"
    and lde: "k_de \<notin> identifiers after_de"
    and ren: "readlines (corpus_dir path is_train @ str ''/text'') =
                  Inr (before_en @ line_en # after_en)"
    and sen: "split_line line_en = Inr (k_en, r_en)"
    and len: "k_en \<notin> identifiers after_en"
    and ok: "init readlines kaldi_loader path is_train = Inr ds"
  shows "data_translated ds k_de = Inr (unescape r_de) \<and>
         data_text ds k_en = Inr (unescape r_en) \<and>
         (\<forall>a b. unescape (a @ str '' &apos;'' @ b) = unescape a @ [39] @ unescape b) \<and>
         (\<forall>a b. unescape (a @ str '' &quot;'' @ b) = unescape a @ [34] @ unescape b) \<and>
         (\<forall>a b. unescape (a @ str '' &amp;'' @ b) = unescape a @ [38] @ unescape b) \<and>
         (\<forall>s. \<not> contains [32, 38] s \<longrightarrow> unescape s = s)"
proof -
  have tr: "data_translated ds k_de = Inr (unescape r_de)"
    using rde sde lde ok by (rule stored_translated)
  have tx: "data_text ds k_en = Inr (unescape r_en)"
    using ren sen len ok by (rule stored_text)
  show ?thesis
    using tr tx unescape_apos unescape_quot unescape_amp unescape_no_space_amp by blast
qed

theorem escape_decoded_after_space_witness:
  "data_translated
     \<lparr>data_path = str ''d'',
      data = [(str ''u1'', [(str ''translated'', str ''R&D ist'' @ [34] @ str ''gut''),
                            (str ''text'', str ''R&D it'' @ [39] @ str ''s'')]),
              (str ''u2'', [(str ''translated'', str ''b''), (str ''text'', str ''a&b'')]),
              (str ''u3'', [(str ''translated'', str ''c''), (str ''text'', str ''it&apos;s'')])],
      keys = [str ''u1'', str ''u2'', str ''u3''],
      loader = ([] :: (pystr \<times> nat) list)\<rparr> (str ''u1'') =
     Inr (str ''R&D ist'' @ [34] @ str ''gut'') \<and>
   data_text
     \<lparr>data_path = str ''d'',
      data = [(str ''u1'', [(str ''translated'', str ''R&D ist'' @ [34] @ str ''gut''),
                            (str ''text'', str ''R&D it'' @ [39] @ str ''s'')]),
              (str ''u2'', [(str ''translated'', str ''b''), (str ''text'', str ''a&b'')]),
              (str ''u3'', [(str ''translated'', str ''c''), (str ''text'', str ''it&apos;s'')])],
      keys = [str ''u1'', str ''u2'', str ''u3''],
      loader = ([] :: (pystr \<times> nat) list)\<rparr> (str ''u1'') =
     Inr (str ''R&D it'' @ [39] @ str ''s'') \<and>
   data_text
     \<lparr>data_path = str ''d'',
      data = [(str ''u1'', [(str ''translated'', str ''R&D ist'' @ [34] @ str ''gut''),
                            (str ''text'', str ''R&D it'' @ [39] @ str ''s'')]),
              (str ''u2'', [(str ''translated'', str ''b''), (str ''text'', str ''a&b'')]),
              (str ''u3'', [(str ''translated'', str ''c''), (str ''text'', str ''it&apos;s'')])],
      keys = [str ''u1'', str ''u2'', str ''u3''],
      loader = ([] :: (pystr \<times> nat) list)\<rparr> (str ''u2'') =
     Inr (str ''a&b'') \<and>
   data_text
     \<lparr>data_path = str ''d'',
      data = [(str ''u1'', [(str ''translated'', str ''R&D ist'' @ [34] @ str ''gut''),
                            (str ''text'', str ''R&D it'' @ [39] @ str ''s'')]),
              (str ''u2'', [(str ''translated'', str ''b''), (str ''text'', str ''a&b'')]),
              (str ''u3'', [(str ''translated'', str ''c''), (str ''text'', str ''it&apos;s'')])],
      keys = [str ''u1'', str ''u2'', str ''u3''],
      loader = ([] :: (pystr \<times> nat) list)\<rparr> (str ''u3'') =
     Inr (str ''it&apos;s'')"
proof -
  let ?dir = "corpus_dir (str ''d'') False"
  let ?d1 = "str ''u1 R&D ist &quot;gut''"
  let ?d2 = "str ''u2 b''"
  let ?d3 = "str ''u3 c''"
  let ?l1 = "str ''u1 R&D it &apos;s''"
  let ?l2 = "str ''u2 a &amp;b''"
  let ?l3 = "str ''u3 it&apos;s''"
  let ?fs = "corpus_files ?dir [?d1, ?d2, ?d3] [?l1, ?l2, ?l3]"
  let ?kl = "audio_index ([] :: (pystr \<times> nat) list)"
  let ?ds = "\<lparr>data_path = str ''d'',
      data = [(str ''u1'', [(str ''translated'', str ''R&D ist'' @ [34] @ str ''gut''),
                            (str ''text'', str ''R&D it'' @ [39] @ str ''s'')]),
              (str ''u2'', [(str ''translated'', str ''b''), (str ''text'', str ''a&b'')]),
              (str ''u3'', [(str ''translated'', str ''c''), (str ''text'', str ''it&apos;s'')])],
      keys = [str ''u1'', str ''u2'', str ''u3''],
      loader = ([] :: (pystr \<times> nat) list)\<rparr>"
  have ini: "init ?fs ?kl (str ''d'') False = Inr ?ds"
    by (simp add: init_corpus_files split_line_def strip_def str_def isspace_def unescape_def)
  have g: "?fs (?dir @ str ''/text.tc.de'') = Inr ([] @ ?d1 # [?d2, ?d3])"
    by (simp add: corpus_files_def)
  have f1: "?fs (?dir @ str ''/text'') = Inr ([] @ ?l1 # [?l2, ?l3])"
    and f2: "?fs (?dir @ str ''/text'') = Inr ([?l1] @ ?l2 # [?l3])"
    and f3: "?fs (?dir @ str ''/text'') = Inr ([?l1, ?l2] @ ?l3 # [])"
    using text_names_differ by (simp_all add: corpus_files_def)
  have sd: "split_line ?d1 = Inr (str ''u1'', str ''R&D ist &quot;gut'')"
    and s1: "split_line ?l1 = Inr (str ''u1'', str ''R&D it &apos;s'')"
    and s2: "split_line ?l2 = Inr (str ''u2'', str ''a &amp;b'')"
    and s3: "split_line ?l3 = Inr (str ''u3'', str ''it&apos;s'')"
    by (simp_all add: split_line_def strip_def str_def isspace_def)
  have nd: "str ''u1'' \<notin> identifiers [?d2, ?d3]"
    and n1: "str ''u1'' \<notin> identifiers [?l2, ?l3]"
    and n2: "str ''u2'' \<notin> identifiers [?l3]"
    and n3: "str ''u3'' \<notin> identifiers []"
    by (simp_all add: identifiers_def split_def strip_def str_def isspace_def)
  have e: "str ''R&D ist &quot;gut'' = str ''R&D ist'' @ str '' &quot;'' @ str ''gut''"
    "str ''R&D it &apos;s'' = str ''R&D it'' @ str '' &apos;'' @ str ''s''"
    "str ''a &amp;b'' = str ''a'' @ str '' &amp;'' @ str ''b''"
    by (simp_all add: str_def)
  have c: "\<not> contains [32, 38] (str ''R&D ist'')" "\<not> contains [32, 38] (str ''gut'')"
    "\<not> contains [32, 38] (str ''R&D it'')" "\<not> contains [32, 38] (str ''s'')"
    "\<not> contains [32, 38] (str ''a'')" "\<not> contains [32, 38] (str ''b'')"
    "\<not> contains [32, 38] (str ''it&apos;s'')"
    by (simp_all add: str_def)
  note t1 = escape_decoded_after_space [OF g sd nd f1 s1 n1 ini]
  note t2 = escape_decoded_after_space [OF g sd nd f2 s2 n2 ini]
  note t3 = escape_decoded_after_space [OF g sd nd f3 s3 n3 ini]
  have u: "unescape (str ''R&D ist'') = str ''R&D ist''" "unescape (str ''gut'') = str ''gut''"
    "unescape (str ''R&D it'') = str ''R&D it''" "unescape (str ''s'') = str ''s''"
    "unescape (str ''a'') = str ''a''" "unescape (str ''b'') = str ''b''"
    "unescape (str ''it&apos;s'') = str ''it&apos;s''"
    using t1 c by blast+
  have r0: "data_translated ?ds (str ''u1'') = Inr (str ''R&D ist'' @ [34] @ str ''gut'')"
  proof -
    from t1 have "data_translated ?ds (str ''u1'') =
                    Inr (unescape (str ''R&D ist'' @ str '' &quot;'' @ str ''gut''))"
      by (simp only: e(1))
    moreover from t1 have "unescape (str ''R&D ist'' @ str '' &quot;'' @ str ''gut'') =
                    unescape (str ''R&D ist'') @ [34] @ unescape (str ''gut'')"
      by blast
    ultimately show ?thesis by (simp only: u)
  qed
  have r1: "data_text ?ds (str ''u1'') = Inr (str ''R&D it'' @ [39] @ str ''s'')"
  proof -
    from t1 have "data_text ?ds (str ''u1'') =
                    Inr (unescape (str ''R&D it'' @ str '' &apos;'' @ str ''s''))"
      by (simp only: e(2))
    moreover from t1 have "unescape (str ''R&D it'' @ str '' &apos;'' @ str ''s'') =
                    unescape (str ''R&D it'') @ [39] @ unescape (str ''s'')"
      by blast
    ultimately show ?thesis by (simp only: u)
  qed
  have r2: "data_text ?ds (str ''u2'') = Inr (str ''a&b'')"
  proof -
    from t2 have "data_text ?ds (str ''u2'') =
                    Inr (unescape (str ''a'' @ str '' &amp;'' @ str ''b''))"
      by (simp only: e(3))
    moreover from t2 have "unescape (str ''a'' @ str '' &amp;'' @ str ''b'') =
                    unescape (str ''a'') @ [38] @ unescape (str ''b'')"
      by blast
    ultimately have "data_text ?ds (str ''u2'') = Inr (str ''a'' @ [38] @ str ''b'')"
      by (simp only: u)
    then show ?thesis by (simp add: str_def)
  qed
  have r3: "data_text ?ds (str ''u3'') = Inr (str ''it&apos;s'')"
    using t3 u(7) by simp
  show ?thesis
    using r0 r1 r2 r3 by blast
qed

text \<open>
  Claim C1 as stated fails: the transcript line \<open>utt2 it&apos;s fine\<close> is stored as
  \<open>it&apos;s fine\<close>, not as \<open>it's fine\<close>, because no space precedes the escape.
\<close>

theorem escape_without_space_counterexample:
  "init (corpus_files (corpus_dir (str ''dump/raw'') True)
           [str ''utt2 schon gut'' @ [10]] [str ''utt2 it&apos;s fine'' @ [10]])
        (audio_index [(str ''utt2'', 2 :: nat)]) (str ''dump/raw'') True =
     Inr \<lparr>data_path = str ''dump/raw'',
          data = [(str ''utt2'', [(str ''translated'', str ''schon gut''),
                                  (str ''text'', str ''it&apos;s fine'')])],
          keys = [str ''utt2''],
          loader = [(str ''utt2'', 2)]\<rparr> \<and>
   data_text \<lparr>data_path = str ''dump/raw'',
          data = [(str ''utt2'', [(str ''translated'', str ''schon gut''),
                                  (str ''text'', str ''it&apos;s fine'')])],
          keys = [str ''utt2''],
          loader = [(str ''utt2'', 2 :: nat)]\<rparr> (str ''utt2'') =
     Inr (str ''it&apos;s fine'') \<and>
   str ''it&apos;s fine'' \<noteq> str ''it'' @ [39] @ str ''s fine''"
proof -
  have a: "init (corpus_files (corpus_dir (str ''dump/raw'') True)
           [str ''utt2 schon gut'' @ [10]] [str ''utt2 it&apos;s fine'' @ [10]])
        (audio_index [(str ''utt2'', 2 :: nat)]) (str ''dump/raw'') True =
     Inr \<lparr>data_path = str ''dump/raw'',
          data = [(str ''utt2'', [(str ''translated'', str ''schon gut''),
                                  (str ''text'', str ''it&apos;s fine'')])],
          keys = [str ''utt2''],
          loader = [(str ''utt2'', 2)]\<rparr>"
    by (simp add: init_corpus_files split_line_def strip_def str_def isspace_def unescape_def)
  have b: "data_text \<lparr>data_path = str ''dump/raw'',
          data = [(str ''utt2'', [(str ''translated'', str ''schon gut''),
                                  (str ''text'', str ''it&apos;s fine'')])],
          keys = [str ''utt2''],
          loader = [(str ''utt2'', 2 :: nat)]\<rparr> (str ''utt2'') =
     Inr (str ''it&apos;s fine'')"
    by (simp add: data_text_def dict_get_def str_def)
  have c: "str ''it&apos;s fine'' \<noteq> str ''it'' @ [39] @ str ''s fine''"
    by (simp add: str_def)
  show ?thesis using a b c by blast
qed

section \<open>Properties of CustomFinetuneModel\<close>

subsection \<open>A call of forward, and a sequence of calls\<close>

lemma lm_loss_fields:
  "lm_loss rt (self\<lparr>log_stats_loss := a\<rparr>) speech text = lm_loss rt self speech text"
  "lm_loss rt (self\<lparr>iter_count := b\<rparr>) speech text = lm_loss rt self speech text"
  by (simp_all add: lm_loss_def Let_def split: sum.splits list.splits)

lemma forward_raises_early:
  assumes "lm_loss rt self speech text = Inl e"
  shows "forward rt globals self speech speech_lengths text text_lengths = (Inl e, self, [])"
  using assms by (simp add: forward_def)

lemma forward_counted:
  assumes "lm_loss rt self speech text = Inr loss"
  shows "snd (forward rt globals self speech speech_lengths text text_lengths) =
           (if log_every self \<noteq> 0 \<and> (iter_count self + 1) mod log_every self = 0
            then (self\<lparr>log_stats_loss := fzero rt, iter_count := iter_count self + 1\<rparr>,
                  [(iter_count self + 1,
                    fdiv rt (fadd rt (log_stats_loss self) (item rt loss)) (log_every self))])
            else (self\<lparr>log_stats_loss := fadd rt (log_stats_loss self) (item rt loss),
                       iter_count := iter_count self + 1\<rparr>, []))"
  using assms by (simp add: forward_def Let_def split: option.splits)

lemma forward_calls_snoc:
  "forward_calls rt globals self (calls @ [(sp, sl, tx, tln)]) =
     (fst (forward_calls rt globals self calls)
        @ [snd (snd (forward rt globals (snd (forward_calls rt globals self calls)) sp sl tx tln))],
      fst (snd (forward rt globals (snd (forward_calls rt globals self calls)) sp sl tx tln)))"
proof (induction calls arbitrary: self)
  case Nil
  show ?case by (simp split: prod.splits)
next
  case (Cons c calls)
  obtain sp' sl' tx' tln' where c: "c = (sp', sl', tx', tln')"
    by (cases c) auto
  show ?case
    by (simp add: c Cons.IH split: prod.splits)
qed

lemma counted_snoc:
  "counted rt self (calls @ [(sp, sl, tx, tln)]) =
     counted rt self calls @
       (case lm_loss rt self sp tx of Inl e \<Rightarrow> [] | Inr loss \<Rightarrow> [loss])"
  by (simp add: counted_def)

lemma window_closes:
  assumes "N dvd Suc c" and "0 < N"
  shows "c - c mod N = Suc c - N"
proof -
  from assms(1) have "Suc c mod N = 0" by simp
  then have "Suc (c mod N) = N"
    using assms(2) by (simp add: mod_Suc split: if_splits)
  moreover have "c mod N \<le> c" by simp
  ultimately show ?thesis by linarith
qed

lemma window_stays:
  assumes "\<not> N dvd Suc c"
  shows "Suc c - Suc c mod N = c - c mod N"
proof (cases "N = 0")
  case True
  then show ?thesis by simp
next
  case False
  from assms have "Suc c mod N \<noteq> 0" by (simp add: dvd_eq_mod_eq_0)
  then have "Suc c mod N = Suc (c mod N)"
    by (simp add: mod_Suc split: if_splits)
  moreover have "c mod N \<le> c" by simp
  ultimately show ?thesis by linarith
qed

lemma print_condition:
  "(n \<noteq> 0 \<and> (int c + 1) mod n = 0) \<longleftrightarrow> nat \<bar>n\<bar> dvd Suc c"
proof -
  have a: "(int c + 1) mod n = 0 \<longleftrightarrow> n dvd int (Suc c)"
    by (simp add: dvd_eq_mod_eq_0 add.commute)
  have b: "n \<noteq> 0" if "n dvd int (Suc c)"
  proof
    assume "n = 0"
    with that have "int (Suc c) = 0" by simp
    then show False by simp
  qed
  show ?thesis
    unfolding nat_abs_dvd_iff a using b by blast
qed

lemma print_condition_int:
  "n dvd int (Suc c) \<longleftrightarrow> nat \<bar>n\<bar> dvd Suc c"
  by (simp only: nat_abs_dvd_iff)

lemma forward_calls_state:
  assumes "log_every self0 = n" and "iter_count self0 = 0"
    and "log_stats_loss self0 = fzero rt"
  shows "snd (forward_calls rt globals self0 calls) =
           self0\<lparr>log_stats_loss :=
                    foldl (fadd rt) (fzero rt)
                      (map (item rt)
                         (drop (length (counted rt self0 calls)
                                  - length (counted rt self0 calls) mod nat \<bar>n\<bar>)
                            (counted rt self0 calls))),
                 iter_count := int (length (counted rt self0 calls))\<rparr>"
proof (induction calls rule: rev_induct)
  case Nil
  have "self0\<lparr>log_stats_loss := fzero rt, iter_count := 0\<rparr> = self0"
    using assms(2,3) by (cases self0) simp
  then show ?case by (simp add: counted_def)
next
  case (snoc x calls)
  obtain sp sl tx tln where x: "x = (sp, sl, tx, tln)"
    by (cases x) auto
  define ls where "ls = counted rt self0 calls"
  define c where "c = length ls"
  define N where "N = nat \<bar>n\<bar>"
  define A where "A = foldl (fadd rt) (fzero rt) (map (item rt) (drop (c - c mod N) ls))"
  define s1 where "s1 = snd (forward_calls rt globals self0 calls)"
  have s1: "s1 = self0\<lparr>log_stats_loss := A, iter_count := int c\<rparr>"
    unfolding s1_def A_def c_def ls_def N_def by (rule snoc.IH)
  have loss_eq: "lm_loss rt s1 sp tx = lm_loss rt self0 sp tx"
    by (simp add: s1 lm_loss_fields)
  have f: "log_every s1 = n" "iter_count s1 = int c" "log_stats_loss s1 = A"
    by (simp_all add: s1 assms(1))
  have step: "snd (forward_calls rt globals self0 (calls @ [x])) =
                fst (snd (forward rt globals s1 sp sl tx tln))"
    by (simp add: x forward_calls_snoc s1_def)
  show ?case
  proof (cases "lm_loss rt self0 sp tx")
    case (Inl e)
    then have "forward rt globals s1 sp sl tx tln = (Inl e, s1, [])"
      using loss_eq by (intro forward_raises_early) simp
    moreover have "counted rt self0 (calls @ [x]) = ls"
      by (simp add: x counted_snoc Inl ls_def)
    ultimately show ?thesis
      unfolding step by (simp add: s1 A_def c_def N_def)
  next
    case (Inr loss)
    then have l1: "lm_loss rt s1 sp tx = Inr loss"
      using loss_eq by simp
    have cnt: "counted rt self0 (calls @ [x]) = ls @ [loss]"
      by (simp add: x counted_snoc Inr ls_def)
    have len: "length (ls @ [loss]) = Suc c"
      by (simp add: c_def)
    note fw = forward_counted [OF l1, of globals sl tln, unfolded f print_condition]
    show ?thesis
    proof (cases "N dvd Suc c")
      case True
      then have "Suc c mod N = 0" by simp
      then have "drop (Suc c - Suc c mod N) (ls @ [loss]) = []"
        by (simp add: c_def)
      then have w: "foldl (fadd rt) (fzero rt)
                      (map (item rt) (drop (Suc c - Suc c mod N) (ls @ [loss]))) = fzero rt"
        by simp
      have "fst (snd (forward rt globals s1 sp sl tx tln)) =
              s1\<lparr>log_stats_loss := fzero rt, iter_count := int c + 1\<rparr>"
        using fw True by (simp add: N_def)
      also have "\<dots> = self0\<lparr>log_stats_loss := fzero rt, iter_count := int (Suc c)\<rparr>"
        by (simp add: s1)
      finally show ?thesis
        unfolding step cnt len N_def [symmetric] by (simp only: w)
    next
      case False
      have k: "Suc c - Suc c mod N = c - c mod N"
        using False by (rule window_stays)
      have "c - c mod N \<le> length ls"
        by (simp add: c_def)
      then have "drop (c - c mod N) (ls @ [loss]) = drop (c - c mod N) ls @ [loss]"
        by simp
      then have w: "foldl (fadd rt) (fzero rt)
                      (map (item rt) (drop (Suc c - Suc c mod N) (ls @ [loss]))) =
                    fadd rt A (item rt loss)"
        by (simp add: k A_def)
      have "fst (snd (forward rt globals s1 sp sl tx tln)) =
              s1\<lparr>log_stats_loss := fadd rt A (item rt loss), iter_count := int c + 1\<rparr>"
        using fw False by (simp add: N_def)
      also have "\<dots> = self0\<lparr>log_stats_loss := fadd rt A (item rt loss),
                              iter_count := int (Suc c)\<rparr>"
        by (simp add: s1)
      finally show ?thesis
        unfolding step cnt len N_def [symmetric] by (simp only: w)
    qed
  qed
qed

subsection \<open>The claims\<close>

text \<open>
  Claim C10. \<open>collect_feats\<close> returns the dict with \<open>speech\<close> under \<open>feats\<close> and
  \<open>speech_lengths\<close> under \<open>feats_lengths\<close>, both as they were passed, and leaves the
  model as it was.
\<close>

theorem collect_feats_passthrough:
  "collect_feats self speech speech_lengths args kwargs =
     ([(str ''feats'', speech), (str ''feats_lengths'', speech_lengths)], self)"
  by (simp add: collect_feats_def)

text \<open>
  Claim C3. In the notebook's module namespace \<open>forward\<close> never returns a value. A
  call that raises before the return statement (in the ASR or translation part, or
  on a zero \<open>log_every\<close>) raises that error; every call that reaches the return
  statement raises NameError for \<open>stats\<close>.
\<close>

theorem forward_stats_undefined:
  "fst (forward rt (notebook_namespace val) self speech speech_lengths text text_lengths) =
     (case lm_loss rt self speech text of
        Inl e \<Rightarrow> Inl e
      | Inr loss \<Rightarrow>
          if log_every self = 0 then Inl ZeroDivisionError else Inl (NameError ''stats''))"
proof -
  have "notebook_namespace val ''stats'' = None"
    by (simp add: notebook_namespace_def notebook_globals_def)
  then show ?thesis
    by (simp add: forward_def Let_def split: sum.splits prod.splits)
qed

text \<open>
  Claim C6. Two speech batches with the same first element (both without one, or
  both with the same waveform on the same device) give the same call of \<open>forward\<close>:
  the same result or error, the same model afterwards, the same printed lines.
\<close>

theorem forward_first_element_only:
  assumes "batch_first speech = batch_first speech2"
  shows "forward rt globals self speech speech_lengths text text_lengths =
         forward rt globals self speech2 speech_lengths text text_lengths"
proof -
  have "lm_loss rt self speech text = lm_loss rt self speech2 text"
  proof (cases "rows speech")
    case Nil
    with assms have "rows speech2 = []"
      by (auto simp: batch_first_def split: list.splits)
    with Nil show ?thesis
      by (simp add: lm_loss_def batch_first_def)
  next
    case (Cons w ws)
    with assms obtain ws2 where r2: "rows speech2 = w # ws2"
      and d: "device speech2 = device speech"
      by (auto simp: batch_first_def split: list.splits)
    show ?thesis
      unfolding lm_loss_def batch_first_def Cons r2 d by simp
  qed
  then show ?thesis by (simp add: forward_def)
qed

theorem forward_first_element_only_witness:
  "batch_first \<lparr>device = Cpu, rows = [[1, 2], [3 :: nat]]\<rparr> =
     batch_first \<lparr>device = Cpu, rows = [[1, 2], [7, 8, 9]]\<rparr> \<and>
   forward test_runtime Map.empty (test_model 20)
       \<lparr>device = Cpu, rows = [[1, 2], [3]]\<rparr> () (1 / 2) () =
     forward test_runtime (Map.empty :: string \<rightharpoonup> unit) (test_model 20)
       \<lparr>device = Cpu, rows = [[1, 2], [7, 8, 9]]\<rparr> () (1 / 2) ()"
  using forward_first_element_only [of "\<lparr>device = Cpu, rows = [[1, 2], [3 :: nat]]\<rparr>"
      "\<lparr>device = Cpu, rows = [[1, 2], [7, 8, 9]]\<rparr>" test_runtime Map.empty
      "test_model 20" "()" "1 / 2" "()"]
  by (simp add: batch_first_def)

text \<open>
  Claim C7, amended. The calls that count are those that get through the ASR and
  translation part: only they reach the counter, and after any sequence of calls the
  counter holds their number. A call that raises earlier prints nothing. A call that
  counts prints a line exactly when \<open>log_every\<close> divides the number \<open>c\<close> of calls
  counted so far, this call included; the line holds \<open>c\<close> and the sum of the losses
  of the last \<open>|log_every|\<close> counted calls, accumulated in call order from the float
  zero, divided by \<open>log_every\<close>. For a positive \<open>log_every\<close> this is the mean of these
  losses and for a negative one its negation; for \<open>log_every = 0\<close> no line is ever
  printed, each call that counts raising ZeroDivisionError.
\<close>

theorem log_every_counted_calls:
  fixes calls :: "('w batch \<times> 'sl \<times> 'x \<times> 'tl) list"
  shows "(let self = finetune_model_init rt asr seq2seq tokenizer n in
    fst (forward_calls rt globals self calls) =
      map (\<lambda>i. case calls ! i of
                  (speech, speech_lengths, text, text_lengths) \<Rightarrow>
                    (case lm_loss rt self speech text of
                       Inl e \<Rightarrow> []
                     | Inr loss \<Rightarrow>
                         (let ls = counted rt self (take (Suc i) calls); c = length ls
                          in if n dvd int c
                             then [(int c,
                                    fdiv rt (foldl (fadd rt) (fzero rt)
                                               (map (item rt) (drop (c - nat \<bar>n\<bar>) ls)))
                                         n)]
                             else [])))
          [0..<length calls] \<and>
    iter_count (snd (forward_calls rt globals self calls)) = int (length (counted rt self calls)))"
proof -
  define self0 where "self0 = finetune_model_init rt asr seq2seq tokenizer n"
  define N where "N = nat \<bar>n\<bar>"
  define F where "F = (\<lambda>(calls :: ('w batch \<times> 'sl \<times> 'x \<times> 'tl) list) i. case calls ! i of
                  (speech, speech_lengths, text, text_lengths) \<Rightarrow>
                    (case lm_loss rt self0 speech text of
                       Inl e \<Rightarrow> []
                     | Inr loss \<Rightarrow>
                         (let ls = counted rt self0 (take (Suc i) calls); c = length ls
                          in if n dvd int c
                             then [(int c,
                                    fdiv rt (foldl (fadd rt) (fzero rt)
                                               (map (item rt) (drop (c - N) ls)))
                                         n)]
                             else [])))"
  have init: "log_every self0 = n" "iter_count self0 = 0" "log_stats_loss self0 = fzero rt"
    by (simp_all add: self0_def finetune_model_init_def)
  note st = forward_calls_state [OF init, of globals]
  have outs: "fst (forward_calls rt globals self0 calls) = map (F calls) [0..<length calls]"
  proof (induction calls rule: rev_induct)
    case Nil
    show ?case by simp
  next
    case (snoc x calls)
    obtain sp sl tx tln where x: "x = (sp, sl, tx, tln)"
      by (cases x) auto
    define ls where "ls = counted rt self0 calls"
    define c where "c = length ls"
    define A where "A = foldl (fadd rt) (fzero rt) (map (item rt) (drop (c - c mod N) ls))"
    define s1 where "s1 = snd (forward_calls rt globals self0 calls)"
    have s1: "s1 = self0\<lparr>log_stats_loss := A, iter_count := int c\<rparr>"
      unfolding s1_def A_def c_def ls_def N_def by (rule st)
    have loss_eq: "lm_loss rt s1 sp tx = lm_loss rt self0 sp tx"
      by (simp add: s1 lm_loss_fields)
    have f: "log_every s1 = n" "iter_count s1 = int c" "log_stats_loss s1 = A"
      by (simp_all add: s1 init(1))
    have old: "F (calls @ [x]) i = F calls i" if "i \<in> set [0..<length calls]" for i
    proof -
      from that have lt: "i < length calls" by simp
      then have "take (Suc i) (calls @ [x]) = take (Suc i) calls"
        and "(calls @ [x]) ! i = calls ! i"
        by (simp_all add: nth_append)
      then show ?thesis
        unfolding F_def by (simp only:)
    qed
    have "fst (forward_calls rt globals self0 (calls @ [x])) =
            fst (forward_calls rt globals self0 calls)
              @ [snd (snd (forward rt globals s1 sp sl tx tln))]"
      by (simp add: x forward_calls_snoc s1_def)
    also have "fst (forward_calls rt globals self0 calls) =
                 map (F (calls @ [x])) [0..<length calls]"
      unfolding snoc.IH using old by (simp cong: map_cong)
    also have "snd (snd (forward rt globals s1 sp sl tx tln)) = F (calls @ [x]) (length calls)"
    proof (cases "lm_loss rt self0 sp tx")
      case (Inl e)
      then have "forward rt globals s1 sp sl tx tln = (Inl e, s1, [])"
        using loss_eq by (intro forward_raises_early) simp
      then show ?thesis
        by (simp add: F_def x Inl)
    next
      case (Inr loss)
      then have l1: "lm_loss rt s1 sp tx = Inr loss"
        using loss_eq by simp
      have cnt: "counted rt self0 (calls @ [x]) = ls @ [loss]"
        by (simp add: x counted_snoc Inr ls_def)
      note fw = forward_counted [OF l1, of globals sl tln, unfolded f print_condition]
      have Fx: "F (calls @ [x]) (length calls) =
                  (if N dvd Suc c
                   then [(int (Suc c),
                          fdiv rt (foldl (fadd rt) (fzero rt)
                                     (map (item rt) (drop (Suc c - N) (ls @ [loss]))))
                               n)]
                   else [])"
      proof -
        have nth: "(calls @ [x]) ! length calls = x"
          and tk: "take (Suc (length calls)) (calls @ [x]) = calls @ [x]"
          by simp_all
        have cnt': "counted rt self0 (calls @ [(sp, sl, tx, tln)]) = ls @ [loss]"
          unfolding x [symmetric] by (rule cnt)
        show ?thesis
          unfolding F_def nth tk by (simp add: x cnt' Inr Let_def c_def N_def)
      qed
      show ?thesis
      proof (cases "N dvd Suc c")
        case True
        then have pos: "0 < N" by (cases "N = 0") simp_all
        have k: "c - c mod N = Suc c - N"
          using True pos by (rule window_closes)
        have "Suc c - N \<le> length ls"
          using pos by (simp add: c_def)
        then have "drop (Suc c - N) (ls @ [loss]) = drop (Suc c - N) ls @ [loss]"
          by simp
        then have w: "foldl (fadd rt) (fzero rt)
                        (map (item rt) (drop (Suc c - N) (ls @ [loss]))) =
                      fadd rt A (item rt loss)"
          by (simp add: A_def k)
        have p: "snd (snd (forward rt globals s1 sp sl tx tln)) =
                [(int c + 1, fdiv rt (fadd rt A (item rt loss)) n)]"
          using fw True by (simp add: N_def)
        have "F (calls @ [x]) (length calls) =
                [(int (Suc c), fdiv rt (fadd rt A (item rt loss)) n)]"
          by (simp only: Fx True if_True w)
        moreover have "int (Suc c) = int c + 1" by simp
        ultimately show ?thesis
          using p by simp
      next
        case False
        have p: "snd (snd (forward rt globals s1 sp sl tx tln)) = []"
          using fw False by (simp add: N_def)
        have "F (calls @ [x]) (length calls) = []"
          by (simp only: Fx False if_False)
        with p show ?thesis by simp
      qed
    qed
    finally show ?case by simp
  qed
  have cnt: "iter_count (snd (forward_calls rt globals self0 calls)) =
               int (length (counted rt self0 calls))"
    by (simp add: st)
  show ?thesis
    using outs cnt unfolding F_def N_def self0_def Let_def by simp
qed

text \<open>
  Claim C7 as stated fails. With \<open>log_every = 2\<close> and a second call that raises
  IndexError on an empty batch, the third call prints, numbered 2, although three
  calls have been made. With \<open>log_every = -2\<close> the second call prints the negated
  mean of the two losses.
\<close>

theorem log_every_n_calls_counterexample:
  "fst (forward_calls test_runtime (Map.empty :: string \<rightharpoonup> unit) (test_model 2)
          [(\<lparr>device = Cpu, rows = [[1, 2]]\<rparr>, (), 1, ()),
           (\<lparr>device = Cpu, rows = []\<rparr>, (), 5, ()),
           (\<lparr>device = Cpu, rows = [[3]]\<rparr>, (), 2, ())]) =
     [[], [], [(2, 3 / 2)]] \<and>
   \<not> (2 :: int) dvd 3 \<and>
   fst (forward_calls test_runtime (Map.empty :: string \<rightharpoonup> unit) (test_model (- 2))
          [(\<lparr>device = Cpu, rows = [[1, 2]]\<rparr>, (), 1, ()),
           (\<lparr>device = Cpu, rows = [[3]]\<rparr>, (), 2, ())]) =
     [[], [(2, - (3 / 2))]] \<and>
   (1 + 2) / 2 \<noteq> (- (3 / 2) :: real)"
proof -
  have a: "fst (forward_calls test_runtime (Map.empty :: string \<rightharpoonup> unit) (test_model 2)
          [(\<lparr>device = Cpu, rows = [[1, 2]]\<rparr>, (), 1, ()),
           (\<lparr>device = Cpu, rows = []\<rparr>, (), 5, ()),
           (\<lparr>device = Cpu, rows = [[3]]\<rparr>, (), 2, ())]) =
     [[], [], [(2, 3 / 2)]]"
    by (simp add: forward_def lm_loss_def batch_first_def test_model_def
          finetune_model_init_def test_asr_def test_runtime_def Let_def)
  have b: "fst (forward_calls test_runtime (Map.empty :: string \<rightharpoonup> unit) (test_model (- 2))
          [(\<lparr>device = Cpu, rows = [[1, 2]]\<rparr>, (), 1, ()),
           (\<lparr>device = Cpu, rows = [[3]]\<rparr>, (), 2, ())]) =
     [[], [(2, - (3 / 2))]]"
    by (simp add: forward_def lm_loss_def batch_first_def test_model_def
          finetune_model_init_def test_asr_def test_runtime_def Let_def)
  have c: "\<not> (2 :: int) dvd 3" "(1 + 2) / 2 \<noteq> (- (3 / 2) :: real)"
    by simp_all
  show ?thesis using a b c by blast
qed

end
